theory Spec2Isabelle
  imports Main "HOL-Library.AList"
begin

section \<open>The object model of the hosting language\<close>

text \<open>
  The repository holds two implementations of the same library in one source file: the
  TypeScript source (called the TS variant below) and a compiled ES5 build of another
  revision (the ES5 variant). Both are embedded; a definition that ends in \<open>_ts\<close> or
  \<open>_es5\<close> follows the corresponding half of the file, and a definition without such a
  suffix follows code that reads the same in both halves.

  Both halves are module code, hence strict-mode code: a write that the object model
  rejects raises \<open>TypeError\<close> instead of being dropped.
\<close>

datatype js_val = Str string | EnumValueRef nat | Other

datatype error =
    TypeError
  | NotInstantiable
  | DuplicateName "js_val option"
  | DuplicateDescriptions "js_val option"

text \<open>
  One data property of an object. \<open>Writable\<close> is a property made by assignment
  (writable, configurable); \<open>ReadOnly\<close> is one that is neither writable nor configurable,
  as \<open>Object.defineProperty\<close> with the descriptor used in the source and
  \<open>Object.freeze\<close> leave it.
\<close>

datatype 'a slot = Absent | Writable 'a | ReadOnly 'a

fun slot_get :: "'a slot \<Rightarrow> 'a option" where
  "slot_get Absent = None"
| "slot_get (Writable x) = Some x"
| "slot_get (ReadOnly x) = Some x"

text \<open>\<open>obj.key = v\<close> in strict mode; the first argument says whether \<open>obj\<close> is extensible.\<close>

fun slot_assign :: "bool \<Rightarrow> 'a \<Rightarrow> 'a slot \<Rightarrow> 'a slot option" where
  "slot_assign ext v Absent = (if ext then Some (Writable v) else None)"
| "slot_assign ext v (Writable _) = Some (Writable v)"
| "slot_assign ext v (ReadOnly _) = None"

text \<open>
  \<open>Object.defineProperty(obj, key, {value: v, configurable: false, writable: false,
  enumerable: true})\<close>: a read-only property accepts only the value it already has.
\<close>

fun slot_define :: "bool \<Rightarrow> 'a \<Rightarrow> 'a slot \<Rightarrow> 'a slot option" where
  "slot_define ext v Absent = (if ext then Some (ReadOnly v) else None)"
| "slot_define ext v (Writable _) = Some (ReadOnly v)"
| "slot_define ext v (ReadOnly w) = (if w = v then Some (ReadOnly w) else None)"

fun slot_freeze :: "'a slot \<Rightarrow> 'a slot" where
  "slot_freeze (Writable x) = ReadOnly x"
| "slot_freeze s = s"

fun slot_locked :: "'a slot \<Rightarrow> bool" where
  "slot_locked (Writable _) = False"
| "slot_locked _ = True"

subsection \<open>EnumValue instances\<close>

text \<open>
  \<open>cls\<close> is the concrete class of the instance (\<open>this.constructor\<close>, the \<open>new.target\<close>
  of its construction); the three slots are the fields \<open>_description\<close>, \<open>_ordinal\<close> and
  \<open>_propName\<close>.
\<close>

record enum_value =
  cls :: nat
  f_description :: "string slot"
  f_ordinal :: "nat slot"
  f_propName :: "string slot"
  extensible :: bool

definition description :: "enum_value \<Rightarrow> string option" where
  "description v = slot_get (f_description v)"

definition ordinal :: "enum_value \<Rightarrow> nat option" where
  "ordinal v = slot_get (f_ordinal v)"

definition propName :: "enum_value \<Rightarrow> string option" where
  "propName v = slot_get (f_propName v)"

definition defineProperty_ordinal :: "nat \<Rightarrow> enum_value \<Rightarrow> enum_value option" where
  "defineProperty_ordinal i v =
     map_option (\<lambda>sl. v\<lparr>f_ordinal := sl\<rparr>) (slot_define (extensible v) i (f_ordinal v))"

definition defineProperty_propName :: "string \<Rightarrow> enum_value \<Rightarrow> enum_value option" where
  "defineProperty_propName p v =
     map_option (\<lambda>sl. v\<lparr>f_propName := sl\<rparr>) (slot_define (extensible v) p (f_propName v))"

definition Object_freeze :: "enum_value \<Rightarrow> enum_value" where
  "Object_freeze v =
     v\<lparr>f_description := slot_freeze (f_description v),
       f_ordinal := slot_freeze (f_ordinal v),
       f_propName := slot_freeze (f_propName v),
       extensible := False\<rparr>"

definition isFrozen :: "enum_value \<Rightarrow> bool" where
  "isFrozen v \<longleftrightarrow>
     \<not> extensible v \<and> slot_locked (f_description v) \<and> slot_locked (f_ordinal v)
       \<and> slot_locked (f_propName v)"

text \<open>An instance as its constructor leaves it: nothing of it has been sealed yet.\<close>

definition unsealed :: "enum_value \<Rightarrow> bool" where
  "unsealed v \<longleftrightarrow>
     extensible v \<and> f_propName v = Absent
       \<and> (case f_ordinal v of ReadOnly _ \<Rightarrow> False | _ \<Rightarrow> True)"

text \<open>Assignments to the three fields by a client of the library (strict mode).\<close>

definition assign_description :: "string \<Rightarrow> enum_value \<Rightarrow> enum_value option" where
  "assign_description d v =
     map_option (\<lambda>sl. v\<lparr>f_description := sl\<rparr>) (slot_assign (extensible v) d (f_description v))"

definition assign_ordinal :: "nat \<Rightarrow> enum_value \<Rightarrow> enum_value option" where
  "assign_ordinal i v =
     map_option (\<lambda>sl. v\<lparr>f_ordinal := sl\<rparr>) (slot_assign (extensible v) i (f_ordinal v))"

definition assign_propName :: "string \<Rightarrow> enum_value \<Rightarrow> enum_value option" where
  "assign_propName p v =
     map_option (\<lambda>sl. v\<lparr>f_propName := sl\<rparr>) (slot_assign (extensible v) p (f_propName v))"

subsection \<open>Enum objects, arrays and the program state\<close>

text \<open>
  An Enum object is the list of its own properties in the order in which
  \<open>Object.getOwnPropertyNames\<close> reports them, the field \<open>name\<close> among them. The library
  changes the attributes of these properties only through \<open>Object.freeze\<close> on the whole
  object, so one flag records them.
\<close>

record enum_obj =
  props :: "(string \<times> js_val) list"
  efrozen :: bool

definition get_prop :: "enum_obj \<Rightarrow> string \<Rightarrow> js_val option" where
  "get_prop E k = map_of (props E) k"

definition enum_assign :: "string \<Rightarrow> js_val \<Rightarrow> enum_obj \<Rightarrow> enum_obj option" where
  "enum_assign k v E =
     (if efrozen E then None else Some (E\<lparr>props := AList.update k v (props E)\<rparr>))"

text \<open>\<open>delete obj.key\<close> in strict mode: deleting a property that is not there is accepted.\<close>

definition enum_delete :: "string \<Rightarrow> enum_obj \<Rightarrow> enum_obj option" where
  "enum_delete k E =
     (if efrozen E \<and> get_prop E k \<noteq> None then None
      else Some (E\<lparr>props := AList.delete k (props E)\<rparr>))"

record js_array =
  elems :: "nat list"
  afrozen :: bool

text \<open>
  \<open>objs\<close> is the heap of EnumValue instances and \<open>arrays\<close> the heap of arrays, both with
  an allocation counter; \<open>enums\<close> holds the Enum objects; \<open>registry\<close> is the static map
  \<open>Enum.enumValues\<close> from name to array; \<open>initialized\<close> says which classes own the
  \<open>INITIALIZED\<close> symbol; \<open>sizes\<close> is the static map \<open>EnumValue.sizes\<close> of the ES5 variant.
\<close>

record state =
  objs :: "nat \<Rightarrow> enum_value"
  next_obj :: nat
  enums :: "nat \<Rightarrow> enum_obj"
  arrays :: "nat \<Rightarrow> js_array"
  next_arr :: nat
  registry :: "(js_val option \<times> nat) list"
  initialized :: "nat \<Rightarrow> bool"
  sizes :: "nat \<Rightarrow> nat option"

definition new_array :: "nat list \<Rightarrow> state \<Rightarrow> nat \<times> state" where
  "new_array xs s =
     (next_arr s,
      s\<lparr>arrays := (arrays s)(next_arr s := \<lparr>elems = xs, afrozen = False\<rparr>),
        next_arr := Suc (next_arr s)\<rparr>)"

text \<open>A client's write to an array: any change of its contents, refused when it is frozen.\<close>

definition array_write :: "nat \<Rightarrow> nat list \<Rightarrow> state \<Rightarrow> (error + unit) \<times> state" where
  "array_write i xs s =
     (if afrozen (arrays s i) then (Inl TypeError, s)
      else (Inr (), s\<lparr>arrays := (arrays s)(i := (arrays s i)\<lparr>elems := xs\<rparr>)\<rparr>))"

section \<open>EnumValue\<close>

definition new_EnumValue_ts :: "nat \<Rightarrow> string \<Rightarrow> state \<Rightarrow> (error + nat) \<times> state" where
  "new_EnumValue_ts c d s =
     (if initialized s c then (Inl NotInstantiable, s)
      else (Inr (next_obj s),
            s\<lparr>objs := (objs s)(next_obj s :=
                 \<lparr>cls = c, f_description = Writable d, f_ordinal = Absent,
                  f_propName = Absent, extensible = True\<rparr>),
              next_obj := Suc (next_obj s)\<rparr>))"

text \<open>
  The ES5 constructor also counts the instances of each class and takes the ordinal from
  the count. \<open>!size\<close> holds for a missing count and for the count \<open>0\<close>.
\<close>

definition new_EnumValue_es5 :: "nat \<Rightarrow> string \<Rightarrow> state \<Rightarrow> (error + nat) \<times> state" where
  "new_EnumValue_es5 c d s =
     (if initialized s c then (Inl NotInstantiable, s)
      else
        let size = (case sizes s c of None \<Rightarrow> 0 | Some k \<Rightarrow> if k = 0 then 0 else k)
        in (Inr (next_obj s),
            s\<lparr>objs := (objs s)(next_obj s :=
                 \<lparr>cls = c, f_description = Writable d, f_ordinal = Writable size,
                  f_propName = Absent, extensible = True\<rparr>),
              next_obj := Suc (next_obj s),
              sizes := (sizes s)(c \<mapsto> Suc size)\<rparr>))"

section \<open>Enum\<close>

subsection \<open>Discovery\<close>

definition instanceof_EnumValue :: "js_val option \<Rightarrow> bool" where
  "instanceof_EnumValue x = (case x of Some (EnumValueRef _) \<Rightarrow> True | _ \<Rightarrow> False)"

text \<open>\<open>Object.getOwnPropertyNames(theEnum).filter(...)\<close>\<close>

definition enum_prop_names :: "enum_obj \<Rightarrow> string list" where
  "enum_prop_names E =
     filter (\<lambda>p. instanceof_EnumValue (get_prop E p)) (map fst (props E))"

text \<open>The instances found under the discovered names, in discovery order.\<close>

definition member_at :: "enum_obj \<Rightarrow> string \<Rightarrow> nat option" where
  "member_at E p = (case get_prop E p of Some (EnumValueRef a) \<Rightarrow> Some a | _ \<Rightarrow> None)"

definition members :: "enum_obj \<Rightarrow> nat list" where
  "members E = List.map_filter (member_at E) (map fst (props E))"

subsection \<open>Sealing, TS variant\<close>

text \<open>
  The body of the \<open>map\<close> callback on one instance. The instance is returned as far as it
  has been changed when a step throws.
\<close>

definition seal_value_ts :: "string \<Rightarrow> nat \<Rightarrow> enum_value \<Rightarrow> error option \<times> enum_value" where
  "seal_value_ts p i v =
     (case defineProperty_ordinal i v of
        None \<Rightarrow> (Some TypeError, v)
      | Some v1 \<Rightarrow>
          (case defineProperty_propName p v1 of
             None \<Rightarrow> (Some TypeError, v1)
           | Some v2 \<Rightarrow> (None, Object_freeze v2)))"

text \<open>
  The \<open>map\<close> over the discovered names, with the running index. A name whose value is
  not an instance cannot come out of the filter; \<open>Object.defineProperty\<close> would throw on it.
\<close>

fun map_members_ts ::
  "enum_obj \<Rightarrow> string list \<Rightarrow> nat \<Rightarrow> (nat \<Rightarrow> enum_value)
     \<Rightarrow> (error + nat list) \<times> (nat \<Rightarrow> enum_value)" where
  "map_members_ts E [] i h = (Inr [], h)"
| "map_members_ts E (p # ps) i h =
     (case get_prop E p of
        Some (EnumValueRef a) \<Rightarrow>
          (case seal_value_ts p i (h a) of
             (Some err, v) \<Rightarrow> (Inl err, h(a := v))
           | (None, v) \<Rightarrow>
               (case map_members_ts E ps (Suc i) (h(a := v)) of
                  (Inl err, h') \<Rightarrow> (Inl err, h')
                | (Inr vs, h') \<Rightarrow> (Inr (a # vs), h')))
      | _ \<Rightarrow> (Inl TypeError, h))"

text \<open>\<open>if (values.length) values[0].constructor[INITIALIZED] = true\<close>\<close>

definition mark_first :: "nat list \<Rightarrow> state \<Rightarrow> state" where
  "mark_first vs s =
     (case vs of
        [] \<Rightarrow> s
      | a # _ \<Rightarrow> s\<lparr>initialized := (initialized s)(cls (objs s a) := True)\<rparr>)"

definition enumValuesFromObject_ts :: "nat \<Rightarrow> state \<Rightarrow> (error + nat) \<times> state" where
  "enumValuesFromObject_ts e s =
     (let E = enums s e in
      case map_members_ts E (enum_prop_names E) 0 (objs s) of
        (Inl err, h) \<Rightarrow> (Inl err, s\<lparr>objs := h\<rparr>)
      | (Inr vs, h) \<Rightarrow>
          (let (values, s1) = new_array vs (s\<lparr>objs := h\<rparr>)
           in (Inr values, mark_first vs s1)))"

text \<open>The static \<open>Enum.initEnum(name, theEnum)\<close>: it reads \<open>theEnum.name\<close>, not \<open>name\<close>.\<close>

definition Enum_initEnum_ts :: "string \<Rightarrow> nat \<Rightarrow> state \<Rightarrow> (error + unit) \<times> state" where
  "Enum_initEnum_ts name e s =
     (let key = get_prop (enums s e) ''name'' in
      if map_of (registry s) key \<noteq> None then (Inl (DuplicateName key), s)
      else
        case enumValuesFromObject_ts e s of
          (Inl err, s1) \<Rightarrow> (Inl err, s1)
        | (Inr enumValues, s1) \<Rightarrow>
            (Inr (),
             s1\<lparr>arrays := (arrays s1)(enumValues := (arrays s1 enumValues)\<lparr>afrozen := True\<rparr>),
                registry := AList.update key enumValues (registry s1)\<rparr>))"

definition initEnum_ts :: "string \<Rightarrow> nat \<Rightarrow> state \<Rightarrow> (error + unit) \<times> state" where
  "initEnum_ts name e s =
     (case enum_assign ''name'' (Str name) (enums s e) of
        None \<Rightarrow> (Inl TypeError, s)
      | Some E \<Rightarrow> Enum_initEnum_ts name e (s\<lparr>enums := (enums s)(e := E)\<rparr>))"

subsection \<open>Sealing, ES5 variant\<close>

definition seal_value_es5 :: "string \<Rightarrow> enum_value \<Rightarrow> error option \<times> enum_value" where
  "seal_value_es5 p v =
     (case defineProperty_propName p v of
        None \<Rightarrow> (Some TypeError, v)
      | Some v1 \<Rightarrow> (None, Object_freeze v1))"

fun map_members_es5 ::
  "enum_obj \<Rightarrow> string list \<Rightarrow> (nat \<Rightarrow> enum_value)
     \<Rightarrow> (error + nat list) \<times> (nat \<Rightarrow> enum_value)" where
  "map_members_es5 E [] h = (Inr [], h)"
| "map_members_es5 E (p # ps) h =
     (case get_prop E p of
        Some (EnumValueRef a) \<Rightarrow>
          (case seal_value_es5 p (h a) of
             (Some err, v) \<Rightarrow> (Inl err, h(a := v))
           | (None, v) \<Rightarrow>
               (case map_members_es5 E ps (h(a := v)) of
                  (Inl err, h') \<Rightarrow> (Inl err, h')
                | (Inr vs, h') \<Rightarrow> (Inr (a # vs), h')))
      | _ \<Rightarrow> (Inl TypeError, h))"

text \<open>\<open>values.indexOf(value)\<close>, with \<open>None\<close> for \<open>-1\<close>.\<close>

fun indexOf :: "'a list \<Rightarrow> 'a \<Rightarrow> nat option" where
  "indexOf [] x = None"
| "indexOf (y # ys) x = (if y = x then Some 0 else map_option Suc (indexOf ys x))"

definition unique :: "'a list \<Rightarrow> 'a list" where
  "unique values_in =
     map fst (filter (\<lambda>(value, i). indexOf values_in value = Some i)
                (zip values_in [0 ..< length values_in]))"

definition enumValuesFromObject_es5 :: "nat \<Rightarrow> state \<Rightarrow> (error + nat) \<times> state" where
  "enumValuesFromObject_es5 e s =
     (let E = enums s e in
      case map_members_es5 E (enum_prop_names E) (objs s) of
        (Inl err, h) \<Rightarrow> (Inl err, s\<lparr>objs := h\<rparr>)
      | (Inr vs, h) \<Rightarrow>
          (let (values, s1) = new_array vs (s\<lparr>objs := h\<rparr>);
               s2 = mark_first vs s1;
               descriptions = map (\<lambda>a. description (objs s2 a)) vs
           in if length vs \<noteq> length (unique descriptions)
              then (Inl (DuplicateDescriptions (get_prop E ''name'')), s2)
              else (Inr values, s2)))"

definition Enum_initEnum_es5 :: "string \<Rightarrow> nat \<Rightarrow> state \<Rightarrow> (error + unit) \<times> state" where
  "Enum_initEnum_es5 name e s =
     (let key = get_prop (enums s e) ''name'' in
      if map_of (registry s) key \<noteq> None then (Inl (DuplicateName key), s)
      else
        case enumValuesFromObject_es5 e s of
          (Inl err, s1) \<Rightarrow> (Inl err, s1)
        | (Inr enumValues, s1) \<Rightarrow>
            (Inr (),
             s1\<lparr>enums := (enums s1)(e := (enums s1 e)\<lparr>efrozen := True\<rparr>),
                registry := AList.update key enumValues (registry s1)\<rparr>))"

definition initEnum_es5 :: "string \<Rightarrow> nat \<Rightarrow> state \<Rightarrow> (error + unit) \<times> state" where
  "initEnum_es5 name e s =
     (case enum_assign ''name'' (Str name) (enums s e) of
        None \<Rightarrow> (Inl TypeError, s)
      | Some E \<Rightarrow> Enum_initEnum_es5 name e (s\<lparr>enums := (enums s)(e := E)\<rparr>))"

text \<open>The method \<open>initEnum\<close> of either variant.\<close>

datatype variant = TS | ES5

definition initEnum :: "variant \<Rightarrow> string \<Rightarrow> nat \<Rightarrow> state \<Rightarrow> (error + unit) \<times> state" where
  "initEnum v name e s =
     (case v of TS \<Rightarrow> initEnum_ts name e s | ES5 \<Rightarrow> initEnum_es5 name e s)"

subsection \<open>Lookup\<close>

text \<open>
  The static \<open>Enum.values(name)\<close>: \<open>values ? [...values] : []\<close> in the TS variant and
  \<open>values ? values.slice() : []\<close> in the ES5 variant, a new array either way.
\<close>

definition Enum_values :: "js_val option \<Rightarrow> state \<Rightarrow> nat \<times> state" where
  "Enum_values name s =
     (case map_of (registry s) name of
        Some values_in \<Rightarrow> new_array (elems (arrays s values_in)) s
      | None \<Rightarrow> new_array [] s)"

text \<open>The accessor \<open>values\<close> of an Enum object.\<close>

definition get_values :: "nat \<Rightarrow> state \<Rightarrow> nat \<times> state" where
  "get_values e s = Enum_values (get_prop (enums s e) ''name'') s"

definition byPropName :: "string \<Rightarrow> nat \<Rightarrow> state \<Rightarrow> nat option \<times> state" where
  "byPropName p e s =
     (let (vs, s1) = get_values e s
      in (find (\<lambda>x. propName (objs s1 x) = Some p) (elems (arrays s1 vs)), s1))"

definition byDescription :: "string \<Rightarrow> nat \<Rightarrow> state \<Rightarrow> nat option \<times> state" where
  "byDescription d e s =
     (let (vs, s1) = get_values e s
      in (find (\<lambda>x. description (objs s1 x) = Some d) (elems (arrays s1 vs)), s1))"

text \<open>
  \<open>Enum.prototype.toString\<close> of the ES5 variant returns \<open>this.name\<close>. The TS class
  declares no \<open>toString\<close>, so an Enum object there answers with the method it inherits
  from \<open>Object.prototype\<close>.
\<close>

definition toString_es5 :: "nat \<Rightarrow> state \<Rightarrow> js_val option" where
  "toString_es5 e s = get_prop (enums s e) ''name''"

definition toString_ts :: "nat \<Rightarrow> state \<Rightarrow> js_val option" where
  "toString_ts e s = Some (Str ''[object Object]'')"

section \<open>Observations used to state the properties\<close>

text \<open>The contents of the array that the accessor \<open>values\<close> returns in state \<open>s\<close>.\<close>

definition values_of :: "nat \<Rightarrow> state \<Rightarrow> nat list" where
  "values_of e s = elems (arrays (snd (get_values e s)) (fst (get_values e s)))"

text \<open>
  The state after a client has read \<open>values\<close> in state \<open>s\<close> and has replaced the
  contents of the array it got by \<open>xs\<close>.
\<close>

definition mutated :: "nat \<Rightarrow> nat list \<Rightarrow> state \<Rightarrow> state" where
  "mutated e xs s = snd (array_write (fst (get_values e s)) xs (snd (get_values e s)))"

text \<open>Every array that the registry refers to has been allocated.\<close>

definition registry_wf :: "state \<Rightarrow> bool" where
  "registry_wf s \<longleftrightarrow> list_all (\<lambda>(k, values_in). values_in < next_arr s) (registry s)"


section \<open>Example programs\<close>

definition init_state :: state where
  "init_state =
     \<lparr>objs = (\<lambda>_. \<lparr>cls = 0, f_description = Absent, f_ordinal = Absent,
                   f_propName = Absent, extensible = True\<rparr>),
      next_obj = 0,
      enums = (\<lambda>_. \<lparr>props = [], efrozen = False\<rparr>),
      arrays = (\<lambda>_. \<lparr>elems = [], afrozen = False\<rparr>),
      next_arr = 0,
      registry = [],
      initialized = (\<lambda>_. False),
      sizes = (\<lambda>_. None)\<rparr>"

text \<open>
  What the constructor of a concrete Enum does before it calls \<open>initEnum\<close>: it constructs
  instances, given as pairs of class and description, and assigns them to its own
  properties.
\<close>

definition construct_all ::
  "(nat \<Rightarrow> string \<Rightarrow> state \<Rightarrow> (error + nat) \<times> state) \<Rightarrow> (nat \<times> string) list \<Rightarrow> state \<Rightarrow> state" where
  "construct_all new cds s = fold (\<lambda>(c, d) s'. snd (new c d s')) cds s"

definition with_enum :: "nat \<Rightarrow> (string \<times> js_val) list \<Rightarrow> state \<Rightarrow> state" where
  "with_enum e ps s = s\<lparr>enums := (enums s)(e := \<lparr>props = ps, efrozen = False\<rparr>)\<rparr>"

text \<open>The enum \<open>Season\<close> of the specification, class \<open>0\<close> being the class of its members.\<close>

definition season_props :: "(string \<times> js_val) list" where
  "season_props =
     [(''SPRING'', EnumValueRef 0), (''SUMMER'', EnumValueRef 1),
      (''FALL'', EnumValueRef 2), (''WINTER'', EnumValueRef 3)]"

definition season_descriptions :: "(nat \<times> string) list" where
  "season_descriptions = [(0, ''Spring''), (0, ''Summer''), (0, ''Fall''), (0, ''Winter'')]"

definition season_unsealed_ts :: state where
  "season_unsealed_ts =
     with_enum 0 season_props (construct_all new_EnumValue_ts season_descriptions init_state)"

definition season_unsealed_es5 :: state where
  "season_unsealed_es5 =
     with_enum 0 season_props (construct_all new_EnumValue_es5 season_descriptions init_state)"

definition season_ts :: state where
  "season_ts = snd (initEnum_ts ''Season'' 0 season_unsealed_ts)"

definition season_es5 :: state where
  "season_es5 = snd (initEnum_es5 ''Season'' 0 season_unsealed_es5)"

text \<open>An enum whose constructor makes \<open>WINTER\<close> first and assigns it last.\<close>

definition reversed_unsealed_es5 :: state where
  "reversed_unsealed_es5 =
     with_enum 0 [(''SPRING'', EnumValueRef 1), (''WINTER'', EnumValueRef 0)]
       (construct_all new_EnumValue_es5 [(0, ''Winter''), (0, ''Spring'')] init_state)"

definition reversed_es5 :: state where
  "reversed_es5 = snd (initEnum_es5 ''Season'' 0 reversed_unsealed_es5)"

definition reversed_unsealed_ts :: state where
  "reversed_unsealed_ts =
     with_enum 0 [(''SPRING'', EnumValueRef 1), (''WINTER'', EnumValueRef 0)]
       (construct_all new_EnumValue_ts [(0, ''Winter''), (0, ''Spring'')] init_state)"

definition reversed_ts :: state where
  "reversed_ts = snd (initEnum_ts ''Season'' 0 reversed_unsealed_ts)"

text \<open>
  A second enum, \<open>Color\<close>, with members of class \<open>1\<close>, defined and sealed after \<open>Season\<close>.
\<close>

definition color_props :: "(string \<times> js_val) list" where
  "color_props = [(''RED'', EnumValueRef 4), (''GREEN'', EnumValueRef 5)]"

definition color_unsealed_ts :: state where
  "color_unsealed_ts =
     with_enum 1 color_props
       (construct_all new_EnumValue_ts [(1, ''Red''), (1, ''Green'')] season_ts)"

definition color_unsealed_es5 :: state where
  "color_unsealed_es5 =
     with_enum 1 color_props
       (construct_all new_EnumValue_es5 [(1, ''Red''), (1, ''Green'')] season_es5)"

definition color_ts :: state where
  "color_ts = snd (initEnum_ts ''Color'' 1 color_unsealed_ts)"

definition color_es5 :: state where
  "color_es5 = snd (initEnum_es5 ''Color'' 1 color_unsealed_es5)"

text \<open>An enum with two members of the same description.\<close>

definition twins_props :: "(string \<times> js_val) list" where
  "twins_props = [(''A'', EnumValueRef 0), (''B'', EnumValueRef 1)]"

definition twins_unsealed_ts :: state where
  "twins_unsealed_ts =
     with_enum 0 twins_props
       (construct_all new_EnumValue_ts [(0, ''Same''), (0, ''Same'')] init_state)"

definition twins_unsealed_es5 :: state where
  "twins_unsealed_es5 =
     with_enum 0 twins_props
       (construct_all new_EnumValue_es5 [(0, ''Same''), (0, ''Same'')] init_state)"

definition twins_ts :: state where
  "twins_ts = snd (initEnum_ts ''Twins'' 0 twins_unsealed_ts)"

definition twins_es5 :: state where
  "twins_es5 = snd (initEnum_es5 ''Twins'' 0 twins_unsealed_es5)"

text \<open>An enum whose two members are instances of two concrete classes, \<open>0\<close> and \<open>1\<close>.\<close>

definition pets_props :: "(string \<times> js_val) list" where
  "pets_props = [(''CAT'', EnumValueRef 0), (''DOG'', EnumValueRef 1)]"

definition pets_unsealed_ts :: state where
  "pets_unsealed_ts =
     with_enum 0 pets_props
       (construct_all new_EnumValue_ts [(0, ''Cat''), (1, ''Dog'')] init_state)"

definition pets_unsealed_es5 :: state where
  "pets_unsealed_es5 =
     with_enum 0 pets_props
       (construct_all new_EnumValue_es5 [(0, ''Cat''), (1, ''Dog'')] init_state)"

definition pets_ts :: state where
  "pets_ts = snd (initEnum_ts ''Pets'' 0 pets_unsealed_ts)"

definition pets_es5 :: state where
  "pets_es5 = snd (initEnum_es5 ''Pets'' 0 pets_unsealed_es5)"

section \<open>Auxiliary facts\<close>

lemmas model_defs =
  initEnum_ts_def Enum_initEnum_ts_def enumValuesFromObject_ts_def
  initEnum_es5_def Enum_initEnum_es5_def enumValuesFromObject_es5_def
  seal_value_ts_def seal_value_es5_def
  defineProperty_ordinal_def defineProperty_propName_def Object_freeze_def
  new_array_def mark_first_def enum_assign_def get_prop_def enum_prop_names_def
  instanceof_EnumValue_def new_EnumValue_ts_def new_EnumValue_es5_def
  Enum_values_def get_values_def byPropName_def byDescription_def
  unique_def description_def ordinal_def propName_def isFrozen_def

lemmas example_defs =
  init_state_def construct_all_def with_enum_def season_props_def season_descriptions_def
  season_unsealed_ts_def season_unsealed_es5_def season_ts_def season_es5_def
  reversed_unsealed_es5_def twins_props_def twins_unsealed_ts_def twins_unsealed_es5_def
  pets_props_def pets_unsealed_ts_def pets_unsealed_es5_def
  reversed_es5_def twins_ts_def twins_es5_def pets_ts_def pets_es5_def
  reversed_unsealed_ts_def reversed_ts_def color_props_def color_unsealed_ts_def
  color_unsealed_es5_def color_ts_def color_es5_def

lemma seal_value_ts_None:
  "seal_value_ts p i v = (None, v') \<Longrightarrow>
     f_ordinal v' = ReadOnly i \<and> f_propName v' = ReadOnly p \<and> isFrozen v' \<and> cls v' = cls v
       \<and> description v' = description v"
  by (cases "f_ordinal v"; cases "f_propName v"; cases "f_description v")
     (auto simp: seal_value_ts_def defineProperty_ordinal_def defineProperty_propName_def
        Object_freeze_def isFrozen_def description_def split: if_splits)

lemma seal_value_ts_ReadOnly:
  "seal_value_ts p i v = (None, v') \<Longrightarrow> f_ordinal v = ReadOnly k \<Longrightarrow> k = i"
  by (auto simp: seal_value_ts_def defineProperty_ordinal_def split: if_splits option.splits)

lemma map_members_ts_keeps:
  "map_members_ts E ps i h = (Inr vs, h') \<Longrightarrow> f_ordinal (h a) = ReadOnly k \<Longrightarrow>
     f_ordinal (h' a) = ReadOnly k"
proof (induction ps arbitrary: i h vs)
  case Nil
  then show ?case by simp
next
  case (Cons p ps)
  from Cons.prems(1) obtain b v ws where
    b: "get_prop E p = Some (EnumValueRef b)" and
    v: "seal_value_ts p i (h b) = (None, v)" and
    rest: "map_members_ts E ps (Suc i) (h(b := v)) = (Inr ws, h')"
    by (auto split: option.splits js_val.splits prod.splits sum.splits)
  have "f_ordinal ((h(b := v)) a) = ReadOnly k"
    using Cons.prems(2) seal_value_ts_None [OF v] seal_value_ts_ReadOnly [OF v]
    by (cases "a = b") auto
  then show ?case by (rule Cons.IH [OF rest])
qed

lemma map_members_ts_ordinals:
  "map_members_ts E ps i h = (Inr vs, h') \<Longrightarrow>
     map (\<lambda>a. f_ordinal (h' a)) vs = map ReadOnly [i ..< i + length vs]"
proof (induction ps arbitrary: i h vs)
  case Nil
  then show ?case by simp
next
  case (Cons p ps)
  from Cons.prems(1) obtain b v ws where
    b: "get_prop E p = Some (EnumValueRef b)" and
    v: "seal_value_ts p i (h b) = (None, v)" and
    rest: "map_members_ts E ps (Suc i) (h(b := v)) = (Inr ws, h')" and
    vs: "vs = b # ws"
    by (auto split: option.splits js_val.splits prod.splits sum.splits)
  have "f_ordinal ((h(b := v)) b) = ReadOnly i"
    using seal_value_ts_None [OF v] by simp
  then have first: "f_ordinal (h' b) = ReadOnly i"
    by (rule map_members_ts_keeps [OF rest])
  have "map (\<lambda>a. f_ordinal (h' a)) ws = map ReadOnly [Suc i ..< Suc i + length ws]"
    by (rule Cons.IH [OF rest])
  with first vs show ?case by (simp add: upt_rec)
qed


lemma map_filter_filter:
  "(\<And>x. P x \<longleftrightarrow> f x \<noteq> None) \<Longrightarrow> List.map_filter f (filter P xs) = List.map_filter f xs"
  by (induction xs) (auto split: option.splits)

lemma members_names: "List.map_filter (member_at E) (enum_prop_names E) = members E"
  unfolding members_def enum_prop_names_def
  by (rule map_filter_filter)
     (auto simp: member_at_def instanceof_EnumValue_def split: option.splits js_val.splits)

lemma map_members_ts_members:
  "map_members_ts E ps i h = (Inr vs, h') \<Longrightarrow> vs = List.map_filter (member_at E) ps"
  by (induction ps arbitrary: i h vs)
     (auto simp: member_at_def
        split: option.splits js_val.splits prod.splits sum.splits)

lemma map_members_es5_members:
  "map_members_es5 E ps h = (Inr vs, h') \<Longrightarrow> vs = List.map_filter (member_at E) ps"
  by (induction ps arbitrary: h vs)
     (auto simp: member_at_def
        split: option.splits js_val.splits prod.splits sum.splits)

lemma seal_value_es5_None:
  "seal_value_es5 p v = (None, v') \<Longrightarrow> f_propName v' = ReadOnly p \<and> isFrozen v'"
  by (cases "f_ordinal v"; cases "f_propName v"; cases "f_description v")
     (auto simp: seal_value_es5_def defineProperty_propName_def
        Object_freeze_def isFrozen_def split: if_splits)

lemma seal_value_es5_same:
  "seal_value_es5 p v = (r, v') \<Longrightarrow>
     cls v' = cls v \<and> description v' = description v \<and> ordinal v' = ordinal v
       \<and> (isFrozen v \<longrightarrow> isFrozen v')"
  by (cases "f_ordinal v"; cases "f_propName v"; cases "f_description v")
     (auto simp: seal_value_es5_def defineProperty_propName_def
        Object_freeze_def isFrozen_def description_def ordinal_def split: if_splits)

lemma seal_value_ts_same:
  "seal_value_ts p i v = (r, v') \<Longrightarrow>
     cls v' = cls v \<and> description v' = description v \<and> (isFrozen v \<longrightarrow> isFrozen v')"
  by (cases "f_ordinal v"; cases "f_propName v"; cases "f_description v")
     (auto simp: seal_value_ts_def defineProperty_propName_def defineProperty_ordinal_def
        Object_freeze_def isFrozen_def description_def split: if_splits)

lemma map_members_es5_same:
  "map_members_es5 E ps h = (r, h') \<Longrightarrow>
     cls (h' a) = cls (h a) \<and> description (h' a) = description (h a)
       \<and> ordinal (h' a) = ordinal (h a) \<and> (isFrozen (h a) \<longrightarrow> isFrozen (h' a))"
proof (induction ps arbitrary: h r h')
  case Nil
  then show ?case by simp
next
  case (Cons p ps)
  show ?case
  proof (cases "member_at E p")
    case None
    with Cons.prems show ?thesis
      by (auto simp: member_at_def split: option.splits js_val.splits)
  next
    case (Some b)
    then have b: "get_prop E p = Some (EnumValueRef b)"
      by (auto simp: member_at_def split: option.splits js_val.splits)
    obtain er v where v: "seal_value_es5 p (h b) = (er, v)"
      by (cases "seal_value_es5 p (h b)")
    have step: "cls ((h(b := v)) a) = cls (h a) \<and> description ((h(b := v)) a) = description (h a)
       \<and> ordinal ((h(b := v)) a) = ordinal (h a) \<and> (isFrozen (h a) \<longrightarrow> isFrozen ((h(b := v)) a))"
      using seal_value_es5_same [OF v] by (cases "a = b") auto
    show ?thesis
    proof (cases er)
      case None
      obtain r2 h2 where rest: "map_members_es5 E ps (h(b := v)) = (r2, h2)"
        by (cases "map_members_es5 E ps (h(b := v))")
      with Cons.prems b v None have "h' = h2"
        by (auto split: sum.splits)
      with Cons.IH [OF rest] step show ?thesis by simp
    next
      case (Some err)
      with Cons.prems b v have "h' = h(b := v)" by simp
      with step show ?thesis by simp
    qed
  qed
qed

lemma map_members_ts_same:
  "map_members_ts E ps i h = (r, h') \<Longrightarrow>
     cls (h' a) = cls (h a) \<and> description (h' a) = description (h a)
       \<and> (isFrozen (h a) \<longrightarrow> isFrozen (h' a))"
proof (induction ps arbitrary: i h r h')
  case Nil
  then show ?case by simp
next
  case (Cons p ps)
  show ?case
  proof (cases "member_at E p")
    case None
    with Cons.prems show ?thesis
      by (auto simp: member_at_def split: option.splits js_val.splits)
  next
    case (Some b)
    then have b: "get_prop E p = Some (EnumValueRef b)"
      by (auto simp: member_at_def split: option.splits js_val.splits)
    obtain er v where v: "seal_value_ts p i (h b) = (er, v)"
      by (cases "seal_value_ts p i (h b)")
    have step: "cls ((h(b := v)) a) = cls (h a) \<and> description ((h(b := v)) a) = description (h a)
       \<and> (isFrozen (h a) \<longrightarrow> isFrozen ((h(b := v)) a))"
      using seal_value_ts_same [OF v] by (cases "a = b") auto
    show ?thesis
    proof (cases er)
      case None
      obtain r2 h2 where rest: "map_members_ts E ps (Suc i) (h(b := v)) = (r2, h2)"
        by (cases "map_members_ts E ps (Suc i) (h(b := v))")
      with Cons.prems b v None have "h' = h2"
        by (auto split: sum.splits)
      with Cons.IH [OF rest] step show ?thesis by simp
    next
      case (Some err)
      with Cons.prems b v have "h' = h(b := v)" by simp
      with step show ?thesis by simp
    qed
  qed
qed

lemma map_members_ts_frozen:
  "map_members_ts E ps i h = (Inr vs, h') \<Longrightarrow> a \<in> set vs \<Longrightarrow> isFrozen (h' a)"
proof (induction ps arbitrary: i h vs)
  case Nil
  then show ?case by simp
next
  case (Cons p ps)
  from Cons.prems(1) obtain b v ws where
    v: "seal_value_ts p i (h b) = (None, v)" and
    rest: "map_members_ts E ps (Suc i) (h(b := v)) = (Inr ws, h')" and
    vs: "vs = b # ws"
    by (auto split: option.splits js_val.splits prod.splits sum.splits)
  show ?case
  proof (cases "a = b")
    case True
    have "isFrozen ((h(b := v)) b)" using seal_value_ts_None [OF v] by simp
    with map_members_ts_same [OF rest, of b] True show ?thesis by simp
  next
    case False
    with Cons.prems(2) vs have "a \<in> set ws" by simp
    then show ?thesis by (rule Cons.IH [OF rest])
  qed
qed

lemma map_members_es5_frozen:
  "map_members_es5 E ps h = (Inr vs, h') \<Longrightarrow> a \<in> set vs \<Longrightarrow> isFrozen (h' a)"
proof (induction ps arbitrary: h vs)
  case Nil
  then show ?case by simp
next
  case (Cons p ps)
  from Cons.prems(1) obtain b v ws where
    v: "seal_value_es5 p (h b) = (None, v)" and
    rest: "map_members_es5 E ps (h(b := v)) = (Inr ws, h')" and
    vs: "vs = b # ws"
    by (auto split: option.splits js_val.splits prod.splits sum.splits)
  show ?case
  proof (cases "a = b")
    case True
    have "isFrozen ((h(b := v)) b)" using seal_value_es5_None [OF v] by simp
    with map_members_es5_same [OF rest, of b] True show ?thesis by simp
  next
    case False
    with Cons.prems(2) vs have "a \<in> set ws" by simp
    then show ?thesis by (rule Cons.IH [OF rest])
  qed
qed

lemma indexOf_nth:
  "distinct xs \<Longrightarrow> i < length xs \<Longrightarrow> indexOf xs (xs ! i) = Some i"
proof (induction xs arbitrary: i)
  case Nil
  then show ?case by simp
next
  case (Cons y ys)
  show ?case
  proof (cases i)
    case 0
    then show ?thesis by simp
  next
    case (Suc j)
    with Cons.prems have "j < length ys" "y \<noteq> ys ! j" by auto
    with Cons Suc show ?thesis by simp
  qed
qed

lemma length_filter_all:
  "length (filter P xs) = length xs \<longleftrightarrow> (\<forall>x \<in> set xs. P x)"
proof
  assume "length (filter P xs) = length xs"
  with sum_length_filter_compl [of P xs] have "filter (\<lambda>x. \<not> P x) xs = []" by simp
  then show "\<forall>x \<in> set xs. P x" by (simp add: filter_empty_conv)
next
  assume "\<forall>x \<in> set xs. P x"
  then show "length (filter P xs) = length xs" by simp
qed

lemma length_unique: "length (unique xs) = length xs \<longleftrightarrow> distinct xs"
proof -
  have "length (unique xs) = length xs \<longleftrightarrow>
        (\<forall>z \<in> set (zip xs [0 ..< length xs]). case z of (x, i) \<Rightarrow> indexOf xs x = Some i)"
    using length_filter_all [of "\<lambda>(x, i). indexOf xs x = Some i" "zip xs [0 ..< length xs]"]
    by (simp add: unique_def)
  also have "\<dots> \<longleftrightarrow> (\<forall>i < length xs. indexOf xs (xs ! i) = Some i)"
  proof
    assume all: "\<forall>z \<in> set (zip xs [0 ..< length xs]). case z of (x, i) \<Rightarrow> indexOf xs x = Some i"
    show "\<forall>i < length xs. indexOf xs (xs ! i) = Some i"
    proof (intro allI impI)
      fix i assume i: "i < length xs"
      then have "(xs ! i, i) \<in> set (zip xs [0 ..< length xs])"
        by (auto simp: set_zip intro!: exI [of _ i])
      with all show "indexOf xs (xs ! i) = Some i" by blast
    qed
  next
    assume "\<forall>i < length xs. indexOf xs (xs ! i) = Some i"
    then show "\<forall>z \<in> set (zip xs [0 ..< length xs]). case z of (x, i) \<Rightarrow> indexOf xs x = Some i"
      by (auto simp: set_zip)
  qed
  also have "\<dots> \<longleftrightarrow> distinct xs"
  proof
    assume all: "\<forall>i < length xs. indexOf xs (xs ! i) = Some i"
    show "distinct xs"
      unfolding distinct_conv_nth
    proof (intro allI impI)
      fix i j
      assume "i < length xs" "j < length xs" "i \<noteq> j"
      with all have "indexOf xs (xs ! i) = Some i" "indexOf xs (xs ! j) = Some j" by auto
      with \<open>i \<noteq> j\<close> show "xs ! i \<noteq> xs ! j" by auto
    qed
  next
    assume "distinct xs"
    then show "\<forall>i < length xs. indexOf xs (xs ! i) = Some i"
      by (simp add: indexOf_nth)
  qed
  finally show ?thesis .
qed

lemma seal_value_es5_unsealed: "unsealed v \<Longrightarrow> fst (seal_value_es5 p v) = None"
  by (auto simp: unsealed_def seal_value_es5_def defineProperty_propName_def)

lemma seal_value_ts_unsealed: "unsealed v \<Longrightarrow> fst (seal_value_ts p i v) = None"
  by (cases "f_ordinal v")
     (auto simp: unsealed_def seal_value_ts_def defineProperty_propName_def
        defineProperty_ordinal_def)

lemma map_members_es5_succeeds:
  assumes "\<forall>p \<in> set ps. instanceof_EnumValue (get_prop E p)"
    and "distinct (List.map_filter (member_at E) ps)"
    and "\<forall>a \<in> set (List.map_filter (member_at E) ps). unsealed (h a)"
  shows "\<exists>vs h'. map_members_es5 E ps h = (Inr vs, h')"
  using assms
proof (induction ps arbitrary: h)
  case Nil
  then show ?case by simp
next
  case (Cons p ps)
  from Cons.prems(1) obtain b where b: "get_prop E p = Some (EnumValueRef b)"
    by (auto simp: instanceof_EnumValue_def split: option.splits js_val.splits)
  then have mb: "member_at E p = Some b" by (simp add: member_at_def)
  from Cons.prems(3) mb have "unsealed (h b)" by simp
  then obtain v where v: "seal_value_es5 p (h b) = (None, v)"
    using seal_value_es5_unsealed [of "h b" p] by (cases "seal_value_es5 p (h b)") simp
  have "\<forall>a \<in> set (List.map_filter (member_at E) ps). unsealed ((h(b := v)) a)"
    using Cons.prems(2,3) mb by auto
  moreover have "distinct (List.map_filter (member_at E) ps)"
    using Cons.prems(2) mb by simp
  moreover have "\<forall>p \<in> set ps. instanceof_EnumValue (get_prop E p)"
    using Cons.prems(1) by simp
  ultimately obtain vs h' where "map_members_es5 E ps (h(b := v)) = (Inr vs, h')"
    using Cons.IH by blast
  with b v show ?case by simp
qed

lemma map_members_ts_succeeds:
  assumes "\<forall>p \<in> set ps. instanceof_EnumValue (get_prop E p)"
    and "distinct (List.map_filter (member_at E) ps)"
    and "\<forall>a \<in> set (List.map_filter (member_at E) ps). unsealed (h a)"
  shows "\<exists>vs h'. map_members_ts E ps i h = (Inr vs, h')"
  using assms
proof (induction ps arbitrary: i h)
  case Nil
  then show ?case by simp
next
  case (Cons p ps)
  from Cons.prems(1) obtain b where b: "get_prop E p = Some (EnumValueRef b)"
    by (auto simp: instanceof_EnumValue_def split: option.splits js_val.splits)
  then have mb: "member_at E p = Some b" by (simp add: member_at_def)
  from Cons.prems(3) mb have "unsealed (h b)" by simp
  then obtain v where v: "seal_value_ts p i (h b) = (None, v)"
    using seal_value_ts_unsealed [of "h b" p i] by (cases "seal_value_ts p i (h b)") simp
  have "\<forall>a \<in> set (List.map_filter (member_at E) ps). unsealed ((h(b := v)) a)"
    using Cons.prems(2,3) mb by auto
  moreover have "distinct (List.map_filter (member_at E) ps)"
    using Cons.prems(2) mb by simp
  moreover have "\<forall>p \<in> set ps. instanceof_EnumValue (get_prop E p)"
    using Cons.prems(1) by simp
  ultimately obtain vs h' where "map_members_ts E ps (Suc i) (h(b := v)) = (Inr vs, h')"
    using Cons.IH by blast
  with b v show ?case by simp
qed

lemma enum_assign_name:
  "enum_assign ''name'' (Str n) E0 = Some E \<Longrightarrow>
     get_prop E ''name'' = Some (Str n) \<and> \<not> efrozen E0 \<and> \<not> efrozen E"
  by (auto simp: enum_assign_def get_prop_def AList.update_conv' split: if_splits)

lemma initEnum_ts_Inr:
  assumes "initEnum_ts n e s = (Inr (), s')"
  obtains E vs h where
    "enum_assign ''name'' (Str n) (enums s e) = Some E"
    "map_of (registry s) (Some (Str n)) = None"
    "map_members_ts E (enum_prop_names E) 0 (objs s) = (Inr vs, h)"
    "objs s' = h"
    "enums s' = (enums s)(e := E)"
    "arrays s' = (arrays s)(next_arr s := \<lparr>elems = vs, afrozen = True\<rparr>)"
    "next_arr s' = Suc (next_arr s)"
    "registry s' = AList.update (Some (Str n)) (next_arr s) (registry s)"
    "initialized s' = (case vs of [] \<Rightarrow> initialized s | a # _ \<Rightarrow> (initialized s)(cls (h a) := True))"
proof -
  from assms obtain E where E: "enum_assign ''name'' (Str n) (enums s e) = Some E"
    and st: "Enum_initEnum_ts n e (s\<lparr>enums := (enums s)(e := E)\<rparr>) = (Inr (), s')"
    by (auto simp: initEnum_ts_def split: option.splits)
  have key: "get_prop E ''name'' = Some (Str n)" using enum_assign_name [OF E] by simp
  from st key have reg: "map_of (registry s) (Some (Str n)) = None"
    by (auto simp: Enum_initEnum_ts_def Let_def split: if_splits)
  from st key reg obtain vs h where
    loop: "map_members_ts E (enum_prop_names E) 0 (objs s) = (Inr vs, h)"
    by (auto simp: Enum_initEnum_ts_def enumValuesFromObject_ts_def Let_def
          split: if_splits prod.splits sum.splits)
  from st key reg loop have
    "objs s' = h"
    "enums s' = (enums s)(e := E)"
    "arrays s' = (arrays s)(next_arr s := \<lparr>elems = vs, afrozen = True\<rparr>)"
    "next_arr s' = Suc (next_arr s)"
    "registry s' = AList.update (Some (Str n)) (next_arr s) (registry s)"
    "initialized s' = (case vs of [] \<Rightarrow> initialized s | a # _ \<Rightarrow> (initialized s)(cls (h a) := True))"
    by (auto simp: Enum_initEnum_ts_def enumValuesFromObject_ts_def Let_def new_array_def
          mark_first_def split: if_splits list.splits)
  with E reg loop show ?thesis by (rule that)
qed

lemma initEnum_es5_Inr:
  assumes "initEnum_es5 n e s = (Inr (), s')"
  obtains E vs h where
    "enum_assign ''name'' (Str n) (enums s e) = Some E"
    "map_of (registry s) (Some (Str n)) = None"
    "map_members_es5 E (enum_prop_names E) (objs s) = (Inr vs, h)"
    "distinct (map (\<lambda>a. description (h a)) vs)"
    "objs s' = h"
    "enums s' = (enums s)(e := E\<lparr>efrozen := True\<rparr>)"
    "arrays s' = (arrays s)(next_arr s := \<lparr>elems = vs, afrozen = False\<rparr>)"
    "next_arr s' = Suc (next_arr s)"
    "registry s' = AList.update (Some (Str n)) (next_arr s) (registry s)"
    "initialized s' = (case vs of [] \<Rightarrow> initialized s | a # _ \<Rightarrow> (initialized s)(cls (h a) := True))"
proof -
  from assms obtain E where E: "enum_assign ''name'' (Str n) (enums s e) = Some E"
    and st: "Enum_initEnum_es5 n e (s\<lparr>enums := (enums s)(e := E)\<rparr>) = (Inr (), s')"
    by (auto simp: initEnum_es5_def split: option.splits)
  have key: "get_prop E ''name'' = Some (Str n)" using enum_assign_name [OF E] by simp
  from st key have reg: "map_of (registry s) (Some (Str n)) = None"
    by (auto simp: Enum_initEnum_es5_def Let_def split: if_splits)
  from st key reg obtain vs h where
    loop: "map_members_es5 E (enum_prop_names E) (objs s) = (Inr vs, h)"
    by (auto simp: Enum_initEnum_es5_def enumValuesFromObject_es5_def Let_def
          split: if_splits prod.splits sum.splits)
  from st key reg loop have len: "length (unique (map (\<lambda>a. description (h a)) vs)) = length vs"
    by (auto simp: Enum_initEnum_es5_def enumValuesFromObject_es5_def Let_def new_array_def
          mark_first_def split: if_splits list.splits)
  then have dist: "distinct (map (\<lambda>a. description (h a)) vs)"
    using length_unique [of "map (\<lambda>a. description (h a)) vs"] by simp
  from st key reg loop have
    "objs s' = h"
    "enums s' = (enums s)(e := E\<lparr>efrozen := True\<rparr>)"
    "arrays s' = (arrays s)(next_arr s := \<lparr>elems = vs, afrozen = False\<rparr>)"
    "next_arr s' = Suc (next_arr s)"
    "registry s' = AList.update (Some (Str n)) (next_arr s) (registry s)"
    "initialized s' = (case vs of [] \<Rightarrow> initialized s | a # _ \<Rightarrow> (initialized s)(cls (h a) := True))"
    by (auto simp: Enum_initEnum_es5_def enumValuesFromObject_es5_def Let_def new_array_def
          mark_first_def split: if_splits list.splits)
  with E reg loop dist show ?thesis by (rule that)
qed

lemma get_values_after:
  "map_of (registry s) (get_prop (enums s e) ''name'') = Some i \<Longrightarrow>
     values_of e s = elems (arrays s i)"
  by (simp add: values_of_def get_values_def Enum_values_def new_array_def)

lemma members_props: "props E' = props E \<Longrightarrow> members E' = members E"
proof -
  assume "props E' = props E"
  then have "member_at E' = member_at E" by (simp add: fun_eq_iff member_at_def get_prop_def)
  with \<open>props E' = props E\<close> show ?thesis by (simp add: members_def)
qed

lemma initEnum_ts_values:
  assumes "initEnum_ts n e s = (Inr (), s')"
  shows "values_of e s' = members (enums s' e)"
    and "map (\<lambda>a. f_ordinal (objs s' a)) (values_of e s') = map ReadOnly [0 ..< length (values_of e s')]"
    and "\<forall>a \<in> set (values_of e s'). isFrozen (objs s' a)"
    and "map_of (registry s') (Some (Str n)) = Some (next_arr s)"
    and "elems (arrays s' (next_arr s)) = values_of e s'"
proof -
  from assms obtain E vs h where
    E: "enum_assign ''name'' (Str n) (enums s e) = Some E" and
    loop: "map_members_ts E (enum_prop_names E) 0 (objs s) = (Inr vs, h)" and
    st: "objs s' = h" "enums s' = (enums s)(e := E)"
      "arrays s' = (arrays s)(next_arr s := \<lparr>elems = vs, afrozen = True\<rparr>)"
      "registry s' = AList.update (Some (Str n)) (next_arr s) (registry s)"
    by (rule initEnum_ts_Inr)
  have key: "get_prop (enums s' e) ''name'' = Some (Str n)"
    using enum_assign_name [OF E] st by simp
  show reg: "map_of (registry s') (Some (Str n)) = Some (next_arr s)"
    using st by (simp add: AList.update_conv')
  have vals: "values_of e s' = vs"
    using get_values_after [of s' e "next_arr s"] key reg st by simp
  then show "elems (arrays s' (next_arr s)) = values_of e s'" using st by simp
  show "values_of e s' = members (enums s' e)"
    using vals map_members_ts_members [OF loop] members_names [of E] st by simp
  show "map (\<lambda>a. f_ordinal (objs s' a)) (values_of e s') = map ReadOnly [0 ..< length (values_of e s')]"
    using vals map_members_ts_ordinals [OF loop] st by simp
  show "\<forall>a \<in> set (values_of e s'). isFrozen (objs s' a)"
    using vals map_members_ts_frozen [OF loop] st by simp
qed

lemma initEnum_es5_values:
  assumes "initEnum_es5 n e s = (Inr (), s')"
  shows "values_of e s' = members (enums s' e)"
    and "\<forall>a. ordinal (objs s' a) = ordinal (objs s a)"
    and "\<forall>a \<in> set (values_of e s'). isFrozen (objs s' a)"
    and "map_of (registry s') (Some (Str n)) = Some (next_arr s)"
    and "elems (arrays s' (next_arr s)) = values_of e s'"
    and "efrozen (enums s' e)"
proof -
  from assms obtain E vs h where
    E: "enum_assign ''name'' (Str n) (enums s e) = Some E" and
    loop: "map_members_es5 E (enum_prop_names E) (objs s) = (Inr vs, h)" and
    st: "objs s' = h" "enums s' = (enums s)(e := E\<lparr>efrozen := True\<rparr>)"
      "arrays s' = (arrays s)(next_arr s := \<lparr>elems = vs, afrozen = False\<rparr>)"
      "registry s' = AList.update (Some (Str n)) (next_arr s) (registry s)"
    by (rule initEnum_es5_Inr)
  have key: "get_prop (enums s' e) ''name'' = Some (Str n)"
    using enum_assign_name [OF E] st by (simp add: get_prop_def)
  show reg: "map_of (registry s') (Some (Str n)) = Some (next_arr s)"
    using st by (simp add: AList.update_conv')
  have vals: "values_of e s' = vs"
    using get_values_after [of s' e "next_arr s"] key reg st by simp
  then show "elems (arrays s' (next_arr s)) = values_of e s'" using st by simp
  have "members (enums s' e) = members E"
    by (rule members_props) (simp add: st)
  then show "values_of e s' = members (enums s' e)"
    using vals map_members_es5_members [OF loop] members_names [of E] by simp
  show "\<forall>a. ordinal (objs s' a) = ordinal (objs s a)"
    using map_members_es5_same [OF loop] st by simp
  show "\<forall>a \<in> set (values_of e s'). isFrozen (objs s' a)"
    using vals map_members_es5_frozen [OF loop] st by simp
  show "efrozen (enums s' e)" using st by simp
qed

lemma season_ts_ok: "fst (initEnum_ts ''Season'' 0 season_unsealed_ts) = Inr ()"
  by (simp add: model_defs example_defs Let_def)

lemma season_es5_ok: "fst (initEnum_es5 ''Season'' 0 season_unsealed_es5) = Inr ()"
  by (simp add: model_defs example_defs Let_def)


lemma reversed_es5_ok: "fst (initEnum_es5 ''Season'' 0 reversed_unsealed_es5) = Inr ()"
  by (simp add: model_defs example_defs Let_def)

lemma enum_prop_names_instances:
  "\<forall>p \<in> set (enum_prop_names E). instanceof_EnumValue (get_prop E p)"
  by (simp add: enum_prop_names_def)

lemma initEnum_es5_duplicates:
  assumes E: "enum_assign ''name'' (Str n) (enums s e) = Some E"
    and reg: "map_of (registry s) (Some (Str n)) = None"
    and loop: "map_members_es5 E (enum_prop_names E) (objs s) = (Inr vs, h)"
    and dup: "\<not> distinct (map (\<lambda>a. description (h a)) vs)"
  shows "fst (initEnum_es5 n e s) = Inl (DuplicateDescriptions (Some (Str n)))"
    and "registry (snd (initEnum_es5 n e s)) = registry s"
proof -
  have key: "get_prop E ''name'' = Some (Str n)" using enum_assign_name [OF E] by simp
  have len: "length vs \<noteq> length (unique (map (\<lambda>a. description (h a)) vs))"
    using dup length_unique [of "map (\<lambda>a. description (h a)) vs"] by auto
  show "fst (initEnum_es5 n e s) = Inl (DuplicateDescriptions (Some (Str n)))"
    using len
    by (cases vs)
      (simp_all add: initEnum_es5_def E Enum_initEnum_es5_def key reg enumValuesFromObject_es5_def
        loop Let_def new_array_def mark_first_def)
  show "registry (snd (initEnum_es5 n e s)) = registry s"
    using len
    by (cases vs)
      (simp_all add: initEnum_es5_def E Enum_initEnum_es5_def key reg enumValuesFromObject_es5_def
        loop Let_def new_array_def mark_first_def)
qed

lemma initEnum_ts_succeeds:
  assumes E: "enum_assign ''name'' (Str n) (enums s e) = Some E"
    and reg: "map_of (registry s) (Some (Str n)) = None"
    and loop: "map_members_ts E (enum_prop_names E) 0 (objs s) = (Inr vs, h)"
  shows "fst (initEnum_ts n e s) = Inr ()"
proof -
  have key: "get_prop E ''name'' = Some (Str n)" using enum_assign_name [OF E] by simp
  show ?thesis
    by (simp add: initEnum_ts_def E Enum_initEnum_ts_def key reg enumValuesFromObject_ts_def
        loop Let_def new_array_def)
qed

lemma twins_E:
  "enum_assign ''name'' (Str ''Twins'') (enums twins_unsealed_es5 0)
     = Some \<lparr>props = twins_props @ [(''name'', Str ''Twins'')], efrozen = False\<rparr>"
  by (simp add: enum_assign_def example_defs)

lemma twins_members:
  "members \<lparr>props = twins_props @ [(''name'', Str ''Twins'')], efrozen = False\<rparr> = [0, 1]"
  by (simp add: members_def member_at_def get_prop_def twins_props_def)

lemma twins_objs:
  "objs twins_unsealed_es5 0 = \<lparr>cls = 0, f_description = Writable ''Same'', f_ordinal = Writable 0,
     f_propName = Absent, extensible = True\<rparr>"
  "objs twins_unsealed_es5 (Suc 0) = \<lparr>cls = 0, f_description = Writable ''Same'', f_ordinal = Writable 1,
     f_propName = Absent, extensible = True\<rparr>"
  "registry twins_unsealed_es5 = []"
  "initialized twins_unsealed_es5 0 = False"
  by (simp_all add: example_defs new_EnumValue_es5_def Let_def)

lemma twins_ts_ok: "fst (initEnum_ts ''Twins'' 0 twins_unsealed_ts) = Inr ()"
  by (simp add: model_defs example_defs Let_def)

lemma map_members_ts_error: "map_members_ts E ps i h = (Inl err, h') \<Longrightarrow> err = TypeError"
  by (induction ps arbitrary: i h)
     (auto simp: seal_value_ts_def split: option.splits js_val.splits prod.splits sum.splits)

lemma map_members_es5_error: "map_members_es5 E ps h = (Inl err, h') \<Longrightarrow> err = TypeError"
  by (induction ps arbitrary: h)
     (auto simp: seal_value_es5_def split: option.splits js_val.splits prod.splits sum.splits)

lemma initEnum_ts_registered:
  "map_of (registry s) (Some (Str n)) = Some i \<Longrightarrow>
     initEnum_ts n e s =
       (if efrozen (enums s e) then (Inl TypeError, s)
        else (Inl (DuplicateName (Some (Str n))),
              s\<lparr>enums := (enums s)(e := (enums s e)\<lparr>props := AList.update ''name'' (Str n) (props (enums s e))\<rparr>)\<rparr>))"
  by (simp add: initEnum_ts_def enum_assign_def Enum_initEnum_ts_def get_prop_def
        AList.update_conv')

lemma initEnum_es5_registered:
  "map_of (registry s) (Some (Str n)) = Some i \<Longrightarrow>
     initEnum_es5 n e s =
       (if efrozen (enums s e) then (Inl TypeError, s)
        else (Inl (DuplicateName (Some (Str n))),
              s\<lparr>enums := (enums s)(e := (enums s e)\<lparr>props := AList.update ''name'' (Str n) (props (enums s e))\<rparr>)\<rparr>))"
  by (simp add: initEnum_es5_def enum_assign_def Enum_initEnum_es5_def get_prop_def
        AList.update_conv')

lemma enumValuesFromObject_ts_Inl:
  "enumValuesFromObject_ts e s = (Inl err, s') \<Longrightarrow>
     err = TypeError \<and> registry s' = registry s \<and> arrays s' = arrays s"
  by (auto simp: enumValuesFromObject_ts_def Let_def new_array_def
        dest: map_members_ts_error split: prod.splits sum.splits)

lemma enumValuesFromObject_es5_Inl:
  "enumValuesFromObject_es5 e s = (Inl err, s') \<Longrightarrow>
     (\<forall>y. err \<noteq> DuplicateName y) \<and> registry s' = registry s
       \<and> (\<forall>i. i \<noteq> next_arr s \<longrightarrow> arrays s' i = arrays s i)"
  by (auto simp: enumValuesFromObject_es5_def Let_def new_array_def mark_first_def
        dest: map_members_es5_error split: prod.splits sum.splits if_splits list.splits)

lemma initEnum_ts_Inl:
  assumes "initEnum_ts n e s = (Inl err, s')"
  shows "registry s' = registry s" and "arrays s' = arrays s"
    and "\<And>y. err = DuplicateName y \<Longrightarrow> objs s' = objs s \<and> initialized s' = initialized s"
proof -
  show "registry s' = registry s" "arrays s' = arrays s"
    using assms
    by (auto simp: initEnum_ts_def Enum_initEnum_ts_def Let_def
          dest!: enumValuesFromObject_ts_Inl split: option.splits if_splits prod.splits sum.splits)
  fix y assume "err = DuplicateName y"
  with assms show "objs s' = objs s \<and> initialized s' = initialized s"
    by (auto simp: initEnum_ts_def Enum_initEnum_ts_def Let_def
          dest!: enumValuesFromObject_ts_Inl split: option.splits if_splits prod.splits sum.splits)
qed

lemma initEnum_es5_Inl:
  assumes "initEnum_es5 n e s = (Inl err, s')"
  shows "registry s' = registry s" and "\<And>i. i \<noteq> next_arr s \<Longrightarrow> arrays s' i = arrays s i"
    and "\<And>y. err = DuplicateName y \<Longrightarrow>
           objs s' = objs s \<and> initialized s' = initialized s \<and> arrays s' = arrays s"
proof -
  show "registry s' = registry s"
    using assms
    by (auto simp: initEnum_es5_def Enum_initEnum_es5_def Let_def
          dest!: enumValuesFromObject_es5_Inl split: option.splits if_splits prod.splits sum.splits)
  show "arrays s' i = arrays s i" if "i \<noteq> next_arr s" for i
    using assms that
    by (auto simp: initEnum_es5_def Enum_initEnum_es5_def Let_def
          dest!: enumValuesFromObject_es5_Inl split: option.splits if_splits prod.splits sum.splits)
  fix y assume "err = DuplicateName y"
  with assms show "objs s' = objs s \<and> initialized s' = initialized s \<and> arrays s' = arrays s"
    by (auto simp: initEnum_es5_def Enum_initEnum_es5_def Let_def
          dest!: enumValuesFromObject_es5_Inl split: option.splits if_splits prod.splits sum.splits)
qed

lemma initEnum_Inr:
  assumes "initEnum v n e s = (Inr (), s')"
  shows "map_of (registry s') (Some (Str n)) = Some (next_arr s)"
    and "elems (arrays s' (next_arr s)) = members (enums s' e)"
    and "\<forall>a \<in> set (members (enums s' e)). isFrozen (objs s' a)"
    and "values_of e s' = members (enums s' e)"
proof -
  show "map_of (registry s') (Some (Str n)) = Some (next_arr s)"
    using assms initEnum_ts_values(4) [of n e s s'] initEnum_es5_values(4) [of n e s s']
    by (cases v) (simp_all add: initEnum_def)
  show v: "values_of e s' = members (enums s' e)"
    using assms initEnum_ts_values(1) [of n e s s'] initEnum_es5_values(1) [of n e s s']
    by (cases v) (simp_all add: initEnum_def)
  show "elems (arrays s' (next_arr s)) = members (enums s' e)"
    using assms v initEnum_ts_values(5) [of n e s s'] initEnum_es5_values(5) [of n e s s']
    by (cases v) (simp_all add: initEnum_def)
  show "\<forall>a \<in> set (members (enums s' e)). isFrozen (objs s' a)"
    using assms v initEnum_ts_values(3) [of n e s s'] initEnum_es5_values(3) [of n e s s']
    by (cases v) (simp_all add: initEnum_def)
qed

lemma initEnum_Inl:
  assumes "initEnum v n e s = (Inl err, s')"
  shows "registry s' = registry s" and "\<And>i. i < next_arr s \<Longrightarrow> arrays s' i = arrays s i"
    and "\<And>y. err = DuplicateName y \<Longrightarrow>
           objs s' = objs s \<and> initialized s' = initialized s \<and> arrays s' = arrays s"
proof -
  show "registry s' = registry s"
    using assms initEnum_ts_Inl(1) [of n e s err s'] initEnum_es5_Inl(1) [of n e s err s']
    by (cases v) (simp_all add: initEnum_def)
  show "arrays s' i = arrays s i" if "i < next_arr s" for i
    using assms that initEnum_ts_Inl(2) [of n e s err s'] initEnum_es5_Inl(2) [of n e s err s' i]
    by (cases v) (simp_all add: initEnum_def)
  show "objs s' = objs s \<and> initialized s' = initialized s \<and> arrays s' = arrays s"
    if "err = DuplicateName y" for y
    using assms that initEnum_ts_Inl(2,3) [of n e s err s'] initEnum_es5_Inl(3) [of n e s err s']
    by (cases v) (simp_all add: initEnum_def)
qed

lemma pair_fst_snd: "fst p = a \<Longrightarrow> p = (a, snd p)"
  by (cases p) simp

lemma initEnum_Inr_enums:
  assumes "initEnum v n e s = (Inr (), s')"
  shows "efrozen (enums s' e) \<longleftrightarrow> v = ES5" and "\<And>g. g \<noteq> e \<Longrightarrow> enums s' g = enums s g"
proof -
  show "efrozen (enums s' e) \<longleftrightarrow> v = ES5"
  proof (cases v)
    case TS
    with assms have r: "initEnum_ts n e s = (Inr (), s')" by (simp add: initEnum_def)
    from initEnum_ts_Inr [OF r] obtain E where
      "enum_assign ''name'' (Str n) (enums s e) = Some E" "enums s' = (enums s)(e := E)"
      by metis
    with TS show ?thesis using enum_assign_name [of n "enums s e" E] by simp
  next
    case ES5
    with assms have r: "initEnum_es5 n e s = (Inr (), s')" by (simp add: initEnum_def)
    with ES5 show ?thesis using initEnum_es5_values(6) [OF r] by simp
  qed
  show "enums s' g = enums s g" if "g \<noteq> e" for g
  proof (cases v)
    case TS
    with assms have r: "initEnum_ts n e s = (Inr (), s')" by (simp add: initEnum_def)
    from initEnum_ts_Inr [OF r] obtain E where "enums s' = (enums s)(e := E)" by metis
    with that show ?thesis by simp
  next
    case ES5
    with assms have r: "initEnum_es5 n e s = (Inr (), s')" by (simp add: initEnum_def)
    from initEnum_es5_Inr [OF r] obtain E where "enums s' = (enums s)(e := E\<lparr>efrozen := True\<rparr>)"
      by metis
    with that show ?thesis by simp
  qed
qed

lemma initEnum_registered:
  assumes "map_of (registry s) (Some (Str n)) = Some i"
  shows "fst (initEnum v n e s)
           = Inl (if efrozen (enums s e) then TypeError else DuplicateName (Some (Str n)))"
    and "registry (snd (initEnum v n e s)) = registry s"
    and "arrays (snd (initEnum v n e s)) = arrays s"
  using initEnum_ts_registered [OF assms, of e] initEnum_es5_registered [OF assms, of e]
  by (cases v; simp add: initEnum_def)+

lemma season_es5_E: "season_es5 = snd (initEnum ES5 ''Season'' 0 season_unsealed_es5)"
  by (simp add: season_es5_def initEnum_def)

lemma season_ts_E: "season_ts = snd (initEnum TS ''Season'' 0 season_unsealed_ts)"
  by (simp add: season_ts_def initEnum_def)

lemma season_es5_ok': "fst (initEnum ES5 ''Season'' 0 season_unsealed_es5) = Inr ()"
  using season_es5_ok by (simp add: initEnum_def)

lemma season_ts_ok': "fst (initEnum TS ''Season'' 0 season_unsealed_ts) = Inr ()"
  using season_ts_ok by (simp add: initEnum_def)

lemma season_registered:
  "map_of (registry season_es5) (Some (Str ''Season'')) = Some 0"
  "map_of (registry season_ts) (Some (Str ''Season'')) = Some 0"
proof -
  have n: "next_arr season_unsealed_es5 = 0" "next_arr season_unsealed_ts = 0"
    by (simp_all add: example_defs new_EnumValue_es5_def new_EnumValue_ts_def Let_def)
  show "map_of (registry season_es5) (Some (Str ''Season'')) = Some 0"
    using initEnum_Inr(1) [OF pair_fst_snd [OF season_es5_ok']] n
    by (simp add: season_es5_E)
  show "map_of (registry season_ts) (Some (Str ''Season'')) = Some 0"
    using initEnum_Inr(1) [OF pair_fst_snd [OF season_ts_ok']] n
    by (simp add: season_ts_E)
qed

lemma season_frozen:
  "efrozen (enums season_es5 0)" "\<not> efrozen (enums season_es5 (Suc 0))"
  "\<not> efrozen (enums season_ts 0)" "\<not> efrozen (enums season_ts (Suc 0))"
proof -
  have u: "\<not> efrozen (enums season_unsealed_es5 (Suc 0))" "\<not> efrozen (enums season_unsealed_ts (Suc 0))"
    by (simp_all add: example_defs new_EnumValue_es5_def new_EnumValue_ts_def Let_def)
  note a = initEnum_Inr_enums [OF pair_fst_snd [OF season_es5_ok'], folded season_es5_E]
  note b = initEnum_Inr_enums [OF pair_fst_snd [OF season_ts_ok'], folded season_ts_E]
  show "efrozen (enums season_es5 0)" using a(1) by simp
  show "\<not> efrozen (enums season_es5 (Suc 0))" using a(2) [of "Suc 0"] u by simp
  show "\<not> efrozen (enums season_ts 0)" using b(1) by simp
  show "\<not> efrozen (enums season_ts (Suc 0))" using b(2) [of "Suc 0"] u by simp
qed

lemma twins_es5_fails:
  "fst (initEnum_es5 ''Twins'' 0 twins_unsealed_es5) = Inl (DuplicateDescriptions (Some (Str ''Twins'')))"
  by (simp add: model_defs example_defs Let_def)

lemma season_second_ts:
  "fst (initEnum TS ''Season'' (Suc 0) season_ts) = Inl (DuplicateName (Some (Str ''Season'')))"
  using initEnum_registered(1) [OF season_registered(2), of TS "Suc 0"] season_frozen by simp

lemma get_values_result:
  "fst (get_values e s) = next_arr s"
  "registry (snd (get_values e s)) = registry s"
  "objs (snd (get_values e s)) = objs s"
  "enums (snd (get_values e s)) = enums s"
  "next_arr (snd (get_values e s)) = Suc (next_arr s)"
  "i \<noteq> next_arr s \<Longrightarrow> arrays (snd (get_values e s)) i = arrays s i"
  "\<not> afrozen (arrays (snd (get_values e s)) (next_arr s))"
  by (simp_all add: get_values_def Enum_values_def new_array_def split: option.splits)

lemma registry_wf_less:
  "registry_wf s \<Longrightarrow> map_of (registry s) k = Some i \<Longrightarrow> i < next_arr s"
  by (auto simp: registry_wf_def list_all_iff dest: map_of_SomeD)

lemma values_of_eq:
  "values_of e s =
     (case map_of (registry s) (get_prop (enums s e) ''name'') of
        Some i \<Rightarrow> elems (arrays s i) | None \<Rightarrow> [])"
  by (simp add: values_of_def get_values_def Enum_values_def new_array_def split: option.splits)

lemma mutated_result:
  "registry (mutated e xs s) = registry s"
  "enums (mutated e xs s) = enums s"
  "objs (mutated e xs s) = objs s"
  "next_arr (mutated e xs s) = Suc (next_arr s)"
  "i \<noteq> next_arr s \<Longrightarrow> arrays (mutated e xs s) i = arrays s i"
  "elems (arrays (mutated e xs s) (next_arr s)) = xs"
  "fst (array_write (fst (get_values e s)) xs (snd (get_values e s))) = Inr ()"
  "fst (array_write (next_arr s) xs (snd (get_values e s))) = Inr ()"
  by (simp_all add: mutated_def array_write_def get_values_def Enum_values_def new_array_def
        split: option.splits)

lemma list_all_update:
  "P (k, v) \<Longrightarrow> list_all P al \<Longrightarrow> list_all P (AList.update k v al)"
  by (induction al) auto

lemma byPropName_find:
  "fst (byPropName p e s) = find (\<lambda>x. propName (objs s x) = Some p) (values_of e s)"
  "snd (byPropName p e s) = snd (get_values e s)"
  by (simp_all add: byPropName_def values_of_def get_values_result split_beta)

lemma byDescription_find:
  "fst (byDescription d e s) = find (\<lambda>x. description (objs s x) = Some d) (values_of e s)"
  "snd (byDescription d e s) = snd (get_values e s)"
  by (simp_all add: byDescription_def values_of_def get_values_result split_beta)

lemma find_first:
  "find P xs = Some a \<Longrightarrow> \<exists>i < length xs. xs ! i = a \<and> P a \<and> (\<forall>j < i. \<not> P (xs ! j))"
  by (auto simp: find_Some_iff)

lemma isFrozen_assign:
  "isFrozen v \<Longrightarrow>
     assign_description d v = None \<and> assign_ordinal i v = None \<and> assign_propName p v = None"
  by (cases "f_description v"; cases "f_ordinal v"; cases "f_propName v")
     (auto simp: isFrozen_def assign_description_def assign_ordinal_def assign_propName_def)

lemma efrozen_rejects:
  "efrozen E \<Longrightarrow> enum_assign k v E = None"
  "efrozen E \<Longrightarrow> get_prop E k \<noteq> None \<Longrightarrow> enum_delete k E = None"
  by (simp_all add: enum_assign_def enum_delete_def)

lemma season_fields:
  "registry season_ts = [(Some (Str ''Season''), 0)]"
  "next_arr season_ts = Suc 0"
  "arrays season_ts 0 = \<lparr>elems = [0, 1, 2, 3], afrozen = True\<rparr>"
  "enums season_ts 0 = \<lparr>props = season_props @ [(''name'', Str ''Season'')], efrozen = False\<rparr>"
  by (simp_all add: model_defs example_defs Let_def)

lemma season_objs:
  "propName (objs season_ts 0) = Some ''SPRING''"
  "propName (objs season_ts (Suc 0)) = Some ''SUMMER''"
  "propName (objs season_ts 2) = Some ''FALL''"
  "propName (objs season_ts 3) = Some ''WINTER''"
  "description (objs season_ts 0) = Some ''Spring''"
  "description (objs season_ts (Suc 0)) = Some ''Summer''"
  "description (objs season_ts 2) = Some ''Fall''"
  "description (objs season_ts 3) = Some ''Winter''"
  by (simp_all add: model_defs example_defs Let_def)

lemma season_values: "values_of 0 season_ts = [0, 1, 2, 3]"
  by (simp add: values_of_eq season_fields get_prop_def season_props_def)

lemma season_lookups:
  "fst (byPropName ''SUMMER'' 0 season_ts) = Some 1"
  "fst (byDescription ''Fall'' 0 season_ts) = Some 2"
  by (simp_all add: byPropName_find byDescription_find season_values season_objs)

lemma pets_fields:
  "initialized pets_ts 0" "\<not> initialized pets_ts (Suc 0)" "next_obj pets_ts = 2"
  "cls (objs pets_ts (Suc 0)) = 1"
  "initialized pets_es5 0" "\<not> initialized pets_es5 (Suc 0)" "next_obj pets_es5 = 2"
  "cls (objs pets_es5 (Suc 0)) = 1"
  by (simp_all add: model_defs example_defs Let_def)

lemma pets_ok:
  "fst (initEnum_ts ''Pets'' 0 pets_unsealed_ts) = Inr ()"
  "fst (initEnum_es5 ''Pets'' 0 pets_unsealed_es5) = Inr ()"
  by (simp_all add: model_defs example_defs Let_def)

lemma pets_members:
  "members (enums pets_ts 0) = [0, 1]" "members (enums pets_es5 0) = [0, 1]"
  by (simp_all add: members_def member_at_def model_defs example_defs Let_def)

lemma unnamed_season:
  "map_of (registry season_unsealed_ts) (get_prop (enums season_unsealed_ts 0) ''name'') = None"
  by (simp add: example_defs new_EnumValue_ts_def)

lemma season_es5_fields:
  "enums season_es5 0 = \<lparr>props = season_props @ [(''name'', Str ''Season'')], efrozen = True\<rparr>"
  by (simp add: model_defs example_defs Let_def)

lemma season_es5_members: "members (enums season_es5 0) = [0, 1, 2, 3]"
  by (simp add: season_es5_fields members_def member_at_def get_prop_def season_props_def)

lemma next_arr_initEnum_ts: "next_arr s \<le> next_arr (snd (initEnum_ts n e s))"
  by (auto simp: initEnum_ts_def Enum_initEnum_ts_def enumValuesFromObject_ts_def Let_def
        new_array_def mark_first_def
        split: option.splits prod.splits sum.splits list.splits)

lemma next_arr_initEnum_es5: "next_arr s \<le> next_arr (snd (initEnum_es5 n e s))"
  by (auto simp: initEnum_es5_def Enum_initEnum_es5_def enumValuesFromObject_es5_def Let_def
        new_array_def mark_first_def
        split: option.splits prod.splits sum.splits list.splits)

lemma registry_wf_mono:
  "registry_wf s \<Longrightarrow> registry s' = registry s \<Longrightarrow> next_arr s \<le> next_arr s' \<Longrightarrow> registry_wf s'"
  by (auto simp: registry_wf_def list_all_iff)

lemma registry_wf_init: "registry_wf init_state"
  by (simp add: registry_wf_def init_state_def)

lemma registry_wf_get_values: "registry_wf s \<Longrightarrow> registry_wf (snd (get_values e s))"
  by (erule registry_wf_mono) (simp_all add: get_values_result)

lemma registry_wf_mutated: "registry_wf s \<Longrightarrow> registry_wf (mutated e xs s)"
  by (erule registry_wf_mono) (simp_all add: mutated_result)

lemma registry_wf_new:
  "registry_wf s \<Longrightarrow> registry_wf (snd (new_EnumValue_ts c d s))"
  "registry_wf s \<Longrightarrow> registry_wf (snd (new_EnumValue_es5 c d s))"
  by (simp_all add: registry_wf_def new_EnumValue_ts_def new_EnumValue_es5_def Let_def)

lemma registry_wf_initEnum:
  assumes "registry_wf s"
  shows "registry_wf (snd (initEnum v n e s))"
proof (cases "fst (initEnum v n e s)")
  case (Inl err)
  then have r: "initEnum v n e s = (Inl err, snd (initEnum v n e s))" by (rule pair_fst_snd)
  have "next_arr s \<le> next_arr (snd (initEnum v n e s))"
    using next_arr_initEnum_ts [of s n e] next_arr_initEnum_es5 [of s n e]
    by (cases v) (simp_all add: initEnum_def)
  with assms initEnum_Inl(1) [OF r] show ?thesis by (rule registry_wf_mono)
next
  case (Inr u)
  then have r: "initEnum v n e s = (Inr (), snd (initEnum v n e s))" by (simp add: pair_fst_snd)
  have upd: "registry (snd (initEnum v n e s)) = AList.update (Some (Str n)) (next_arr s) (registry s)
      \<and> next_arr (snd (initEnum v n e s)) = Suc (next_arr s)"
  proof (cases v)
    case TS
    with r have "initEnum_ts n e s = (Inr (), snd (initEnum v n e s))" by (simp add: initEnum_def)
    from initEnum_ts_Inr [OF this] show ?thesis by metis
  next
    case ES5
    with r have "initEnum_es5 n e s = (Inr (), snd (initEnum v n e s))" by (simp add: initEnum_def)
    from initEnum_es5_Inr [OF this] show ?thesis by metis
  qed
  have "list_all (\<lambda>(k, i). i < Suc (next_arr s)) (registry s)"
    using assms by (auto simp: registry_wf_def list_all_iff)
  then have "list_all (\<lambda>(k, i). i < Suc (next_arr s))
      (AList.update (Some (Str n)) (next_arr s) (registry s))"
    by (intro list_all_update) simp_all
  with upd show ?thesis by (simp add: registry_wf_def)
qed

lemma reversed_ts_ok: "fst (initEnum_ts ''Season'' 0 reversed_unsealed_ts) = Inr ()"
  by (simp add: model_defs example_defs Let_def)

lemma initEnum_ts_ordinals:
  assumes "initEnum_ts n e s = (Inr (), s')"
  shows "map (\<lambda>a. ordinal (objs s' a)) (values_of e s')
           = map Some [0 ..< length (members (enums s' e))]"
proof -
  have "map (\<lambda>a. f_ordinal (objs s' a)) (values_of e s')
          = map ReadOnly [0 ..< length (members (enums s' e))]"
    using initEnum_ts_values(1,2) [OF assms] by simp
  then have "map (slot_get \<circ> (\<lambda>a. f_ordinal (objs s' a))) (values_of e s')
     = map (slot_get \<circ> ReadOnly) [0 ..< length (members (enums s' e))]"
    by (metis map_map)
  then show ?thesis by (simp add: ordinal_def comp_def)
qed

text \<open>What a call of \<open>initEnum\<close>, successful or not, leaves as it was.\<close>

lemma enums_enumValuesFromObject:
  "enumValuesFromObject_ts e s = (r, s') \<Longrightarrow> enums s' = enums s"
  "enumValuesFromObject_es5 e s = (r, s') \<Longrightarrow> enums s' = enums s"
  by (auto simp: enumValuesFromObject_ts_def enumValuesFromObject_es5_def Let_def new_array_def
        mark_first_def split: prod.splits sum.splits list.splits if_splits)

lemma initEnum_other_enums:
  assumes "g \<noteq> e"
  shows "enums (snd (initEnum v n e s)) g = enums s g"
proof (cases v)
  case TS
  show ?thesis
    using assms
    by (auto simp: TS initEnum_def initEnum_ts_def Enum_initEnum_ts_def Let_def
          dest!: enums_enumValuesFromObject(1) split: option.splits prod.splits sum.splits)
next
  case ES5
  show ?thesis
    using assms
    by (auto simp: ES5 initEnum_def initEnum_es5_def Enum_initEnum_es5_def Let_def
          dest!: enums_enumValuesFromObject(2) split: option.splits prod.splits sum.splits)
qed

lemma initEnum_registry:
  assumes "fst (initEnum v n e s) = Inr ()"
  shows "registry (snd (initEnum v n e s))
           = AList.update (Some (Str n)) (next_arr s) (registry s)"
    and "map_of (registry s) (Some (Str n)) = None"
    and "\<And>i. i \<noteq> next_arr s \<Longrightarrow> arrays (snd (initEnum v n e s)) i = arrays s i"
proof -
  define s' where "s' = snd (initEnum v n e s)"
  with assms have r: "initEnum v n e s = (Inr (), s')" by (simp add: pair_fst_snd)
  have "registry s' = AList.update (Some (Str n)) (next_arr s) (registry s)
     \<and> map_of (registry s) (Some (Str n)) = None
     \<and> (\<exists>x. arrays s' = (arrays s)(next_arr s := x))"
  proof (cases v)
    case TS
    with r have "initEnum_ts n e s = (Inr (), s')" by (simp add: initEnum_def)
    then show ?thesis by (rule initEnum_ts_Inr) blast
  next
    case ES5
    with r have "initEnum_es5 n e s = (Inr (), s')" by (simp add: initEnum_def)
    then show ?thesis by (rule initEnum_es5_Inr) blast
  qed
  then show "registry (snd (initEnum v n e s))
           = AList.update (Some (Str n)) (next_arr s) (registry s)"
    and "map_of (registry s) (Some (Str n)) = None"
    and "\<And>i. i \<noteq> next_arr s \<Longrightarrow> arrays (snd (initEnum v n e s)) i = arrays s i"
    unfolding s'_def by auto
qed

lemma registered_persists:
  assumes "map_of (registry s) k = Some i"
  shows "map_of (registry (snd (initEnum v n e s))) k = Some i"
proof (cases "fst (initEnum v n e s)")
  case (Inl err)
  then have "initEnum v n e s = (Inl err, snd (initEnum v n e s))" by (rule pair_fst_snd)
  from initEnum_Inl(1) [OF this] assms show ?thesis by simp
next
  case (Inr u)
  then have ok: "fst (initEnum v n e s) = Inr ()" by simp
  from initEnum_registry(2) [OF ok] assms have "k \<noteq> Some (Str n)" by auto
  with initEnum_registry(1) [OF ok] assms show ?thesis by (simp add: AList.update_conv')
qed

lemma arrays_persist:
  assumes "i < next_arr s"
  shows "arrays (snd (initEnum v n e s)) i = arrays s i"
proof (cases "fst (initEnum v n e s)")
  case (Inl err)
  then have "initEnum v n e s = (Inl err, snd (initEnum v n e s))" by (rule pair_fst_snd)
  from initEnum_Inl(2) [OF this assms] show ?thesis .
next
  case (Inr u)
  then have ok: "fst (initEnum v n e s) = Inr ()" by simp
  from assms have "i \<noteq> next_arr s" by simp
  then show ?thesis by (rule initEnum_registry(3) [OF ok])
qed

text \<open>
  The values of an Enum that has been sealed stay what they are when \<open>initEnum\<close> is called
  on another Enum object, whatever the outcome of the call.
\<close>

lemma values_persist:
  assumes "registry_wf s" and "g \<noteq> e"
    and "map_of (registry s) (get_prop (enums s g) ''name'') = Some i"
  shows "values_of g (snd (initEnum v n e s)) = values_of g s"
proof -
  have "i < next_arr s" using assms(1,3) by (rule registry_wf_less)
  then have "arrays (snd (initEnum v n e s)) i = arrays s i" by (rule arrays_persist)
  moreover have "map_of (registry (snd (initEnum v n e s))) (get_prop (enums s g) ''name'') = Some i"
    using assms(3) by (rule registered_persists)
  ultimately show ?thesis
    using assms(3) initEnum_other_enums [OF assms(2), of v n s]
    by (simp add: values_of_eq)
qed

lemma season_es5_registry:
  "registry season_es5 = [(Some (Str ''Season''), 0)]"
  "next_arr season_es5 = Suc 0"
  by (simp_all add: model_defs example_defs Let_def)

lemma season_es5_array: "arrays season_es5 0 = \<lparr>elems = [0, 1, 2, 3], afrozen = False\<rparr>"
  by (simp add: model_defs example_defs Let_def)

lemma construct_all_frame:
  "registry (construct_all new_EnumValue_ts cds s) = registry s"
  "enums (construct_all new_EnumValue_ts cds s) = enums s"
  "next_arr (construct_all new_EnumValue_ts cds s) = next_arr s"
  "arrays (construct_all new_EnumValue_ts cds s) = arrays s"
  "registry (construct_all new_EnumValue_es5 cds s) = registry s"
  "enums (construct_all new_EnumValue_es5 cds s) = enums s"
  "next_arr (construct_all new_EnumValue_es5 cds s) = next_arr s"
  "arrays (construct_all new_EnumValue_es5 cds s) = arrays s"
  by (induction cds arbitrary: s;
      simp add: construct_all_def new_EnumValue_ts_def new_EnumValue_es5_def Let_def
        split_beta)+

lemma color_unsealed_frame:
  "registry color_unsealed_ts = registry season_ts"
  "next_arr color_unsealed_ts = next_arr season_ts"
  "arrays color_unsealed_ts = arrays season_ts"
  "enums color_unsealed_ts = (enums season_ts)(1 := \<lparr>props = color_props, efrozen = False\<rparr>)"
  "registry color_unsealed_es5 = registry season_es5"
  "next_arr color_unsealed_es5 = next_arr season_es5"
  "arrays color_unsealed_es5 = arrays season_es5"
  "enums color_unsealed_es5 = (enums season_es5)(1 := \<lparr>props = color_props, efrozen = False\<rparr>)"
  by (simp_all add: color_unsealed_ts_def color_unsealed_es5_def with_enum_def construct_all_frame)

lemma color_ok:
  "fst (initEnum_ts ''Color'' 1 color_unsealed_ts) = Inr ()"
  "fst (initEnum_es5 ''Color'' 1 color_unsealed_es5) = Inr ()"
  by (simp_all add: model_defs example_defs Let_def)

lemma color_E:
  "color_ts = snd (initEnum TS ''Color'' (Suc 0) color_unsealed_ts)"
  "color_es5 = snd (initEnum ES5 ''Color'' (Suc 0) color_unsealed_es5)"
  by (simp_all add: color_ts_def color_es5_def initEnum_def)

lemma color_registered:
  "map_of (registry color_ts) (Some (Str ''Season'')) = Some 0"
  "map_of (registry color_es5) (Some (Str ''Season'')) = Some 0"
  using registered_persists [of color_unsealed_ts "Some (Str ''Season'')" 0 TS "''Color''" 1]
    registered_persists [of color_unsealed_es5 "Some (Str ''Season'')" 0 ES5 "''Color''" 1]
    season_registered
  by (simp_all add: color_E color_unsealed_frame)

lemma color_frozen:
  "\<not> efrozen (enums color_ts 0)" "\<not> efrozen (enums color_ts 2)"
  "efrozen (enums color_es5 0)" "\<not> efrozen (enums color_es5 2)"
proof -
  have u: "\<not> efrozen (enums season_unsealed_ts 2)" "\<not> efrozen (enums season_unsealed_es5 2)"
    by (simp_all add: season_unsealed_ts_def season_unsealed_es5_def with_enum_def
          construct_all_frame init_state_def)
  have two: "\<not> efrozen (enums season_ts 2)" "\<not> efrozen (enums season_es5 2)"
    using initEnum_other_enums [of 2 0 TS "''Season''" season_unsealed_ts]
      initEnum_other_enums [of 2 0 ES5 "''Season''" season_unsealed_es5] u
    by (simp_all add: season_ts_E [symmetric] season_es5_E [symmetric])
  show "\<not> efrozen (enums color_ts 0)"
    using initEnum_other_enums [of 0 1 TS "''Color''" color_unsealed_ts] season_frozen(3)
    by (simp add: color_E [symmetric] color_unsealed_frame)
  show "\<not> efrozen (enums color_ts 2)"
    using initEnum_other_enums [of 2 1 TS "''Color''" color_unsealed_ts] two(1)
    by (simp add: color_E [symmetric] color_unsealed_frame)
  show "efrozen (enums color_es5 0)"
    using initEnum_other_enums [of 0 1 ES5 "''Color''" color_unsealed_es5] season_frozen(1)
    by (simp add: color_E [symmetric] color_unsealed_frame)
  show "\<not> efrozen (enums color_es5 2)"
    using initEnum_other_enums [of 2 1 ES5 "''Color''" color_unsealed_es5] two(2)
    by (simp add: color_E [symmetric] color_unsealed_frame)
qed

section \<open>The claims\<close>

text \<open>
  C1: for every sealed Enum with \<open>n\<close> members, \<open>values\<close> has length \<open>n\<close> and its elements
  carry the ordinals \<open>0..n-1\<close> in order, the ordinal of a member being its position in the
  discovery order. The ES5 variant breaks this. Take an Enum whose constructor makes
  \<open>WINTER\<close> before \<open>SPRING\<close> and assigns \<open>SPRING\<close> first. Sealing succeeds in both
  variants and \<open>values\<close> is \<open>SPRING, WINTER\<close> in both. In the ES5 variant \<open>SPRING\<close> has the
  ordinal \<open>1\<close> and \<open>WINTER\<close> the ordinal \<open>0\<close>, the order of construction; in the TS
  variant \<open>SPRING\<close> has the ordinal \<open>0\<close> and \<open>WINTER\<close> the ordinal \<open>1\<close>, as claimed.
\<close>

theorem ordinals_follow_construction_es5:
  "fst (initEnum_es5 ''Season'' 0 reversed_unsealed_es5) = Inr ()
   \<and> values_of 0 reversed_es5 = [1, 0]
   \<and> propName (objs reversed_es5 1) = Some ''SPRING''
   \<and> ordinal (objs reversed_es5 1) = Some 1
   \<and> propName (objs reversed_es5 0) = Some ''WINTER''
   \<and> ordinal (objs reversed_es5 0) = Some 0
   \<and> fst (initEnum_ts ''Season'' 0 reversed_unsealed_ts) = Inr ()
   \<and> values_of 0 reversed_ts = [1, 0]
   \<and> propName (objs reversed_ts 1) = Some ''SPRING''
   \<and> ordinal (objs reversed_ts 1) = Some 0
   \<and> propName (objs reversed_ts 0) = Some ''WINTER''
   \<and> ordinal (objs reversed_ts 0) = Some 1"
proof -
  have r: "initEnum_es5 ''Season'' 0 reversed_unsealed_es5 = (Inr (), reversed_es5)"
    using reversed_es5_ok
    by (cases "initEnum_es5 ''Season'' 0 reversed_unsealed_es5") (simp add: reversed_es5_def)
  have t: "initEnum_ts ''Season'' 0 reversed_unsealed_ts = (Inr (), reversed_ts)"
    using reversed_ts_ok
    by (cases "initEnum_ts ''Season'' 0 reversed_unsealed_ts") (simp add: reversed_ts_def)
  have m: "members (enums reversed_es5 0) = [1, 0]" "members (enums reversed_ts 0) = [1, 0]"
    by (simp_all add: members_def member_at_def model_defs example_defs Let_def)
  have v: "values_of 0 reversed_es5 = [1, 0]" "values_of 0 reversed_ts = [1, 0]"
    using initEnum_es5_values(1) [OF r] initEnum_ts_values(1) [OF t] m by simp_all
  have o: "ordinal (objs reversed_es5 (Suc 0)) = Some 1" "ordinal (objs reversed_es5 0) = Some 0"
    "ordinal (objs reversed_ts (Suc 0)) = Some 0" "ordinal (objs reversed_ts 0) = Some 1"
    by (simp_all add: model_defs example_defs Let_def)
  have p: "propName (objs reversed_es5 (Suc 0)) = Some ''SPRING''"
    "propName (objs reversed_es5 0) = Some ''WINTER''"
    "propName (objs reversed_ts (Suc 0)) = Some ''SPRING''"
    "propName (objs reversed_ts 0) = Some ''WINTER''"
    by (simp_all add: model_defs example_defs Let_def)
  show ?thesis using reversed_es5_ok reversed_ts_ok v o p by simp
qed

text \<open>
  C2, as stated: when two members of an Enum have the same description, \<open>initEnum\<close> fails
  with a duplicate-description error that names the enum, and nothing is registered. The
  TS variant has no such check: an Enum whose two members are both described as
  \<open>Same\<close> seals successfully there and its members are registered.
\<close>

theorem duplicate_descriptions_counterexample:
  "members (enums twins_unsealed_ts 0) = [0, 1]
   \<and> description (objs twins_unsealed_ts 0) = Some ''Same''
   \<and> description (objs twins_unsealed_ts 1) = Some ''Same''
   \<and> fst (initEnum_ts ''Twins'' 0 twins_unsealed_ts) = Inr ()
   \<and> values_of 0 twins_ts = [0, 1]"
proof -
  have r: "initEnum_ts ''Twins'' 0 twins_unsealed_ts = (Inr (), twins_ts)"
    using twins_ts_ok by (cases "initEnum_ts ''Twins'' 0 twins_unsealed_ts") (simp add: twins_ts_def)
  have "members (enums twins_ts 0) = [0, 1]"
    by (simp add: members_def member_at_def model_defs example_defs Let_def)
  then have "values_of 0 twins_ts = [0, 1]" using initEnum_ts_values(1) [OF r] by simp
  moreover have "members (enums twins_unsealed_ts 0) = [0, 1]"
    "description (objs twins_unsealed_ts 0) = Some ''Same''"
    "description (objs twins_unsealed_ts 1) = Some ''Same''"
    by (simp_all add: members_def member_at_def model_defs example_defs Let_def)
  ultimately show ?thesis using twins_ts_ok by simp
qed

text \<open>
  C2, amended. Take an Enum object that is not frozen, a name that is not registered, and
  members that are distinct instances, none of them sealed before, two of which have the
  same description. In the ES5 variant \<open>initEnum\<close> fails with the duplicate-description
  error carrying the registration name, and the registry is left as it was, so no values
  are registered under the name. The TS variant makes no check of the descriptions:
  there the same call succeeds and registers the members.
\<close>

theorem duplicate_descriptions:
  assumes "enum_assign ''name'' (Str n) (enums s e) = Some E"
    and "map_of (registry s) (Some (Str n)) = None"
    and "distinct (members E)"
    and "\<forall>a \<in> set (members E). unsealed (objs s a)"
    and "\<not> distinct (map (\<lambda>a. description (objs s a)) (members E))"
  shows "fst (initEnum_es5 n e s) = Inl (DuplicateDescriptions (Some (Str n)))
     \<and> registry (snd (initEnum_es5 n e s)) = registry s
     \<and> map_of (registry (snd (initEnum_es5 n e s))) (Some (Str n)) = None
     \<and> fst (initEnum_ts n e s) = Inr ()
     \<and> values_of e (snd (initEnum_ts n e s)) = members E"
proof -
  note inst = enum_prop_names_instances [of E]
  have dist: "distinct (List.map_filter (member_at E) (enum_prop_names E))"
    using assms(3) by (simp add: members_names)
  have uns: "\<forall>a \<in> set (List.map_filter (member_at E) (enum_prop_names E)). unsealed (objs s a)"
    using assms(4) by (simp add: members_names)
  obtain vs h where loop: "map_members_es5 E (enum_prop_names E) (objs s) = (Inr vs, h)"
    using map_members_es5_succeeds [OF inst dist uns] by blast
  have vs: "vs = members E"
    using map_members_es5_members [OF loop] by (simp add: members_names)
  have "map (\<lambda>a. description (h a)) vs = map (\<lambda>a. description (objs s a)) (members E)"
    using map_members_es5_same [OF loop] vs by simp
  with assms(5) have dup: "\<not> distinct (map (\<lambda>a. description (h a)) vs)" by simp
  note es5 = initEnum_es5_duplicates [OF assms(1,2) loop dup]
  obtain ws k where tloop: "map_members_ts E (enum_prop_names E) 0 (objs s) = (Inr ws, k)"
    using map_members_ts_succeeds [OF inst dist uns] by blast
  have ts: "fst (initEnum_ts n e s) = Inr ()"
    by (rule initEnum_ts_succeeds [OF assms(1,2) tloop])
  then have r: "initEnum_ts n e s = (Inr (), snd (initEnum_ts n e s))"
    by (cases "initEnum_ts n e s") simp
  from initEnum_ts_Inr [OF r] obtain E' where
    "enum_assign ''name'' (Str n) (enums s e) = Some E'"
    "enums (snd (initEnum_ts n e s)) = (enums s)(e := E')"
    by metis
  with assms(1) have "enums (snd (initEnum_ts n e s)) e = E" by simp
  with initEnum_ts_values(1) [OF r] have "values_of e (snd (initEnum_ts n e s)) = members E"
    by simp
  with es5 ts assms(2) show ?thesis by simp
qed

theorem duplicate_descriptions_witness:
  "enum_assign ''name'' (Str ''Twins'') (enums twins_unsealed_es5 0)
     = Some \<lparr>props = twins_props @ [(''name'', Str ''Twins'')], efrozen = False\<rparr>
   \<and> map_of (registry twins_unsealed_es5) (Some (Str ''Twins'')) = None
   \<and> members \<lparr>props = twins_props @ [(''name'', Str ''Twins'')], efrozen = False\<rparr> = [0, 1]
   \<and> unsealed (objs twins_unsealed_es5 0) \<and> unsealed (objs twins_unsealed_es5 1)
   \<and> description (objs twins_unsealed_es5 0) = description (objs twins_unsealed_es5 1)
   \<and> fst (initEnum_es5 ''Twins'' 0 twins_unsealed_es5) = Inl (DuplicateDescriptions (Some (Str ''Twins'')))
   \<and> registry twins_es5 = registry twins_unsealed_es5
   \<and> fst (initEnum_ts ''Twins'' 0 twins_unsealed_es5) = Inr ()"
proof -
  have h: "map_of (registry twins_unsealed_es5) (Some (Str ''Twins'')) = None"
    "distinct (members \<lparr>props = twins_props @ [(''name'', Str ''Twins'')], efrozen = False\<rparr>)"
    "\<forall>a \<in> set (members \<lparr>props = twins_props @ [(''name'', Str ''Twins'')], efrozen = False\<rparr>).
       unsealed (objs twins_unsealed_es5 a)"
    "\<not> distinct (map (\<lambda>a. description (objs twins_unsealed_es5 a))
       (members \<lparr>props = twins_props @ [(''name'', Str ''Twins'')], efrozen = False\<rparr>))"
    by (simp_all add: twins_members twins_objs unsealed_def description_def)
  have u: "unsealed (objs twins_unsealed_es5 0)" "unsealed (objs twins_unsealed_es5 1)"
    "description (objs twins_unsealed_es5 0) = description (objs twins_unsealed_es5 1)"
    by (simp_all add: twins_objs unsealed_def description_def)
  note T = duplicate_descriptions [OF twins_E h, folded twins_es5_def]
  show ?thesis
    by (intro conjI twins_E h(1) twins_members u T [THEN conjunct1]
          T [THEN conjunct2, THEN conjunct1]
          T [THEN conjunct2, THEN conjunct2, THEN conjunct2, THEN conjunct1])
qed

text \<open>
  C3: once \<open>initEnum\<close> has succeeded for a name, every second call with that name, on the
  same or on another Enum object, fails with the duplicate-name error, and the registry
  still maps the name to the sequence of the first sealing. The ES5 variant breaks this
  for the same object. There the first call ends by freezing the Enum object, and the
  second call on that object starts with the assignment \<open>this.name = name\<close>, which a
  frozen object refuses with \<open>TypeError\<close> before the registry is looked at. Below,
  \<open>Season\<close> is sealed on object \<open>0\<close> and then \<open>Color\<close> on object \<open>1\<close>. A further
  \<open>initEnum\<close> with the name \<open>Season\<close> fails with the duplicate-name error on another object
  in both variants and on object \<open>0\<close> in the TS variant, and with \<open>TypeError\<close> on object
  \<open>0\<close> in the ES5 variant, also right after the first sealing. The registry and the
  values of \<open>Season\<close> are as the first sealing left them.
\<close>

theorem second_sealing_same_object_es5:
  "fst (initEnum_es5 ''Season'' 0 season_unsealed_es5) = Inr ()
   \<and> fst (initEnum_es5 ''Season'' 0 season_es5) = Inl TypeError
   \<and> fst (initEnum_es5 ''Color'' 1 color_unsealed_es5) = Inr ()
   \<and> fst (initEnum_es5 ''Season'' 0 color_es5) = Inl TypeError
   \<and> fst (initEnum_es5 ''Season'' 2 color_es5) = Inl (DuplicateName (Some (Str ''Season'')))
   \<and> registry (snd (initEnum_es5 ''Season'' 0 color_es5)) = registry color_es5
   \<and> values_of 0 (snd (initEnum_es5 ''Season'' 0 color_es5)) = [0, 1, 2, 3]
   \<and> fst (initEnum_ts ''Season'' 0 season_unsealed_ts) = Inr ()
   \<and> fst (initEnum_ts ''Color'' 1 color_unsealed_ts) = Inr ()
   \<and> fst (initEnum_ts ''Season'' 0 color_ts) = Inl (DuplicateName (Some (Str ''Season'')))
   \<and> fst (initEnum_ts ''Season'' 2 color_ts) = Inl (DuplicateName (Some (Str ''Season'')))
   \<and> registry (snd (initEnum_ts ''Season'' 0 color_ts)) = registry color_ts
   \<and> values_of 0 (snd (initEnum_ts ''Season'' 0 color_ts)) = [0, 1, 2, 3]"
proof -
  have first: "fst (initEnum_es5 ''Season'' 0 season_es5) = Inl TypeError"
    using initEnum_es5_registered [OF season_registered(1), of 0] season_frozen(1) by simp
  note E = initEnum_es5_registered [OF color_registered(2)]
  note T = initEnum_ts_registered [OF color_registered(1)]
  have es5: "fst (initEnum_es5 ''Season'' 0 color_es5) = Inl TypeError"
    "fst (initEnum_es5 ''Season'' 2 color_es5) = Inl (DuplicateName (Some (Str ''Season'')))"
    "snd (initEnum_es5 ''Season'' 0 color_es5) = color_es5"
    using E [of 0] E [of 2] color_frozen by simp_all
  have ts: "fst (initEnum_ts ''Season'' 0 color_ts) = Inl (DuplicateName (Some (Str ''Season'')))"
    "fst (initEnum_ts ''Season'' 2 color_ts) = Inl (DuplicateName (Some (Str ''Season'')))"
    "registry (snd (initEnum_ts ''Season'' 0 color_ts)) = registry color_ts"
    using T [of 0] T [of 2] color_frozen by simp_all
  have wf: "registry_wf color_unsealed_es5" "registry_wf color_unsealed_ts"
    by (simp_all add: registry_wf_def color_unsealed_frame season_fields season_es5_registry)
  have named: "get_prop (enums color_unsealed_es5 0) ''name'' = Some (Str ''Season'')"
    "get_prop (enums color_unsealed_ts 0) ''name'' = Some (Str ''Season'')"
    by (simp_all add: color_unsealed_frame season_fields season_es5_fields get_prop_def
          season_props_def)
  have reg: "map_of (registry color_unsealed_es5) (Some (Str ''Season'')) = Some 0"
    "map_of (registry color_unsealed_ts) (Some (Str ''Season'')) = Some 0"
    by (simp_all add: color_unsealed_frame season_registered)
  have "values_of 0 color_unsealed_es5 = elems (arrays color_unsealed_es5 0)"
    "values_of 0 color_unsealed_ts = elems (arrays color_unsealed_ts 0)"
    using get_values_after [of color_unsealed_es5 0 0] get_values_after [of color_unsealed_ts 0 0]
      named reg by simp_all
  then have before: "values_of 0 color_unsealed_es5 = [0, 1, 2, 3]"
    "values_of 0 color_unsealed_ts = [0, 1, 2, 3]"
    by (simp_all add: color_unsealed_frame(3,7) season_fields(3) season_es5_array)
  have v: "values_of 0 color_es5 = [0, 1, 2, 3]" "values_of 0 color_ts = [0, 1, 2, 3]"
    using values_persist [OF wf(1), of 0 1 0 ES5 "''Color''"]
      values_persist [OF wf(2), of 0 1 0 TS "''Color''"] named reg before
    by (simp_all add: color_E [symmetric])
  have nm: "get_prop (enums color_ts 0) ''name'' = Some (Str ''Season'')"
    using initEnum_other_enums [of 0 1 TS "''Color''" color_unsealed_ts] named(2)
    by (simp add: color_E [symmetric])
  have after_ts: "values_of 0 (snd (initEnum_ts ''Season'' 0 color_ts)) = values_of 0 color_ts"
    using color_frozen(1) nm color_registered(1)
    by (simp add: T [of 0] values_of_eq get_prop_def AList.update_conv')
  show ?thesis
    using season_es5_ok season_ts_ok color_ok first es5 ts v after_ts by simp
qed

text \<open>
  C4, as stated: a call of \<open>initEnum\<close> that fails leaves the registry, the members and the
  sealed markers as they were. In the ES5 variant the check of the descriptions comes
  after the members have been named and frozen and after the marker has been set: on the
  Enum with two members described as \<open>Same\<close> the call fails, and the first member, which
  was neither named nor frozen, is now both, and its class, which was open, is now closed.
\<close>

theorem sealing_outcomes_counterexample:
  "fst (initEnum_es5 ''Twins'' 0 twins_unsealed_es5) = Inl (DuplicateDescriptions (Some (Str ''Twins'')))
   \<and> \<not> isFrozen (objs twins_unsealed_es5 0) \<and> isFrozen (objs twins_es5 0)
   \<and> propName (objs twins_unsealed_es5 0) = None \<and> propName (objs twins_es5 0) = Some ''A''
   \<and> \<not> initialized twins_unsealed_es5 0 \<and> initialized twins_es5 0"
  by (simp add: model_defs example_defs Let_def)

text \<open>
  C4, amended. A call of \<open>initEnum\<close> that succeeds registers, under the given name, a new
  array that holds the discovered members, all of them frozen. A call that fails, for
  whatever reason, leaves the registry and every array allocated before the call as they
  were. A call that fails with the duplicate-name error also leaves every instance and
  every sealed marker as they were.
\<close>

theorem sealing_outcomes:
  "(fst (initEnum v n e s) = Inr () \<longrightarrow>
      map_of (registry (snd (initEnum v n e s))) (Some (Str n)) = Some (next_arr s)
      \<and> elems (arrays (snd (initEnum v n e s)) (next_arr s))
           = members (enums (snd (initEnum v n e s)) e)
      \<and> (\<forall>a \<in> set (members (enums (snd (initEnum v n e s)) e)).
            isFrozen (objs (snd (initEnum v n e s)) a)))
   \<and> (fst (initEnum w m g t) = Inl err \<longrightarrow>
      registry (snd (initEnum w m g t)) = registry t
      \<and> (\<forall>i < next_arr t. arrays (snd (initEnum w m g t)) i = arrays t i))
   \<and> (fst (initEnum x k f u) = Inl (DuplicateName y) \<longrightarrow>
      objs (snd (initEnum x k f u)) = objs u
      \<and> initialized (snd (initEnum x k f u)) = initialized u
      \<and> arrays (snd (initEnum x k f u)) = arrays u
      \<and> registry (snd (initEnum x k f u)) = registry u)"
proof (intro conjI impI)
  assume "fst (initEnum v n e s) = Inr ()"
  then have r: "initEnum v n e s = (Inr (), snd (initEnum v n e s))" by (rule pair_fst_snd)
  show "map_of (registry (snd (initEnum v n e s))) (Some (Str n)) = Some (next_arr s)"
    by (rule initEnum_Inr [OF r])
  show "elems (arrays (snd (initEnum v n e s)) (next_arr s))
           = members (enums (snd (initEnum v n e s)) e)"
    by (rule initEnum_Inr [OF r])
  show "\<forall>a \<in> set (members (enums (snd (initEnum v n e s)) e)).
            isFrozen (objs (snd (initEnum v n e s)) a)"
    by (rule initEnum_Inr [OF r])
next
  assume "fst (initEnum w m g t) = Inl err"
  then have r: "initEnum w m g t = (Inl err, snd (initEnum w m g t))" by (rule pair_fst_snd)
  show "registry (snd (initEnum w m g t)) = registry t" by (rule initEnum_Inl [OF r])
  show "\<forall>i < next_arr t. arrays (snd (initEnum w m g t)) i = arrays t i"
    using initEnum_Inl(2) [OF r] by simp
next
  assume "fst (initEnum x k f u) = Inl (DuplicateName y)"
  then have r: "initEnum x k f u = (Inl (DuplicateName y), snd (initEnum x k f u))"
    by (rule pair_fst_snd)
  from initEnum_Inl(3) [OF r] show "objs (snd (initEnum x k f u)) = objs u"
    "initialized (snd (initEnum x k f u)) = initialized u"
    "arrays (snd (initEnum x k f u)) = arrays u" by simp_all
  show "registry (snd (initEnum x k f u)) = registry u" by (rule initEnum_Inl [OF r])
qed


theorem sealing_outcomes_witness:
  "fst (initEnum ES5 ''Season'' 0 season_unsealed_es5) = Inr ()
   \<and> map_of (registry season_es5) (Some (Str ''Season'')) = Some (next_arr season_unsealed_es5)
   \<and> elems (arrays season_es5 (next_arr season_unsealed_es5)) = members (enums season_es5 0)
   \<and> isFrozen (objs season_es5 0)
   \<and> fst (initEnum ES5 ''Twins'' 0 twins_unsealed_es5)
        = Inl (DuplicateDescriptions (Some (Str ''Twins'')))
   \<and> registry (snd (initEnum ES5 ''Twins'' 0 twins_unsealed_es5)) = registry twins_unsealed_es5
   \<and> fst (initEnum TS ''Season'' (Suc 0) season_ts) = Inl (DuplicateName (Some (Str ''Season'')))
   \<and> objs (snd (initEnum TS ''Season'' (Suc 0) season_ts)) = objs season_ts
   \<and> initialized (snd (initEnum TS ''Season'' (Suc 0) season_ts)) = initialized season_ts"
proof -
  have tw: "fst (initEnum ES5 ''Twins'' 0 twins_unsealed_es5)
        = Inl (DuplicateDescriptions (Some (Str ''Twins'')))"
    using twins_es5_fails by (simp add: initEnum_def)
  have mem: "(0::nat) \<in> set (members (enums season_es5 0))" by (simp add: season_es5_members)
  note T = sealing_outcomes [of ES5 "''Season''" 0 season_unsealed_es5
      ES5 "''Twins''" 0 twins_unsealed_es5 "DuplicateDescriptions (Some (Str ''Twins''))"
      TS "''Season''" "Suc 0" season_ts "Some (Str ''Season'')", folded season_es5_E]
  note A = T [THEN conjunct1, THEN mp, OF season_es5_ok']
  note B = T [THEN conjunct2, THEN conjunct1, THEN mp, OF tw]
  note C = T [THEN conjunct2, THEN conjunct2, THEN mp, OF season_second_ts]
  show ?thesis
    by (intro conjI season_es5_ok' tw season_second_ts A [THEN conjunct1]
          A [THEN conjunct2, THEN conjunct1]
          A [THEN conjunct2, THEN conjunct2, THEN bspec, OF mem]
          B [THEN conjunct1] C [THEN conjunct1] C [THEN conjunct2, THEN conjunct1])
qed



text \<open>
  C6: once the Enum that owns a concrete class of members has been sealed, constructing
  an instance of that class fails. Sealing closes the class of the first member only.
  On an Enum with the members \<open>CAT\<close> of class \<open>0\<close> and \<open>DOG\<close> of class \<open>1\<close>, both variants
  seal successfully, refuse a new instance of class \<open>0\<close> and construct a new instance of
  class \<open>1\<close>.
\<close>

theorem second_class_stays_open:
  "fst (initEnum_ts ''Pets'' 0 pets_unsealed_ts) = Inr ()
   \<and> members (enums pets_ts 0) = [0, 1]
   \<and> cls (objs pets_ts 1) = 1
   \<and> fst (new_EnumValue_ts 0 ''Lion'' pets_ts) = Inl NotInstantiable
   \<and> fst (new_EnumValue_ts 1 ''Wolf'' pets_ts) = Inr 2
   \<and> fst (initEnum_es5 ''Pets'' 0 pets_unsealed_es5) = Inr ()
   \<and> members (enums pets_es5 0) = [0, 1]
   \<and> cls (objs pets_es5 1) = 1
   \<and> fst (new_EnumValue_es5 0 ''Lion'' pets_es5) = Inl NotInstantiable
   \<and> fst (new_EnumValue_es5 1 ''Wolf'' pets_es5) = Inr 2"
  by (simp add: pets_ok pets_members pets_fields new_EnumValue_ts_def new_EnumValue_es5_def Let_def)

text \<open>
  C7, as stated: after a successful \<open>initEnum\<close> the Enum object and all its members are
  frozen. The TS variant freezes the members and the array it registers, not the Enum
  object: after sealing \<open>Season\<close> there, a property can still be added to the Enum object
  and a member can still be deleted from it.
\<close>

theorem frozen_after_sealing_counterexample:
  "fst (initEnum_ts ''Season'' 0 season_unsealed_ts) = Inr ()
   \<and> \<not> efrozen (enums season_ts 0)
   \<and> enum_assign ''EXTRA'' (EnumValueRef 0) (enums season_ts 0) \<noteq> None
   \<and> get_prop (enums season_ts 0) ''SPRING'' = Some (EnumValueRef 0)
   \<and> enum_delete ''SPRING'' (enums season_ts 0) \<noteq> None"
  by (simp add: season_ts_ok season_fields enum_assign_def enum_delete_def get_prop_def
        season_props_def)

text \<open>
  C7, amended. After a successful \<open>initEnum\<close> every member is frozen in both variants: an
  assignment to its description, ordinal or property name is refused. In the ES5 variant
  the Enum object is frozen too: no property of it can be assigned or added, and none of
  its properties can be deleted. In the TS variant the Enum object is not frozen by
  sealing; the array stored in the registry is.
\<close>

theorem frozen_after_sealing:
  "(fst (initEnum v n e s) = Inr () \<longrightarrow>
      (\<forall>a \<in> set (members (enums (snd (initEnum v n e s)) e)).
         isFrozen (objs (snd (initEnum v n e s)) a)
         \<and> assign_description d (objs (snd (initEnum v n e s)) a) = None
         \<and> assign_ordinal i (objs (snd (initEnum v n e s)) a) = None
         \<and> assign_propName p (objs (snd (initEnum v n e s)) a) = None))
   \<and> (fst (initEnum_es5 m g t) = Inr () \<longrightarrow>
      efrozen (enums (snd (initEnum_es5 m g t)) g)
      \<and> enum_assign k x (enums (snd (initEnum_es5 m g t)) g) = None
      \<and> (get_prop (enums (snd (initEnum_es5 m g t)) g) k \<noteq> None \<longrightarrow>
           enum_delete k (enums (snd (initEnum_es5 m g t)) g) = None))
   \<and> (fst (initEnum_ts l f u) = Inr () \<longrightarrow>
      \<not> efrozen (enums (snd (initEnum_ts l f u)) f)
      \<and> map_of (registry (snd (initEnum_ts l f u))) (Some (Str l)) = Some (next_arr u)
      \<and> afrozen (arrays (snd (initEnum_ts l f u)) (next_arr u)))"
proof (intro conjI impI ballI)
  fix a
  assume "fst (initEnum v n e s) = Inr ()"
    and a: "a \<in> set (members (enums (snd (initEnum v n e s)) e))"
  then have r: "initEnum v n e s = (Inr (), snd (initEnum v n e s))" by (simp add: pair_fst_snd)
  from initEnum_Inr(3) [OF r] a show fr: "isFrozen (objs (snd (initEnum v n e s)) a)" by blast
  from isFrozen_assign [OF fr] show
    "assign_description d (objs (snd (initEnum v n e s)) a) = None"
    "assign_ordinal i (objs (snd (initEnum v n e s)) a) = None"
    "assign_propName p (objs (snd (initEnum v n e s)) a) = None" by blast+
next
  assume "fst (initEnum_es5 m g t) = Inr ()"
  then have r: "initEnum_es5 m g t = (Inr (), snd (initEnum_es5 m g t))" by (rule pair_fst_snd)
  show fr: "efrozen (enums (snd (initEnum_es5 m g t)) g)" by (rule initEnum_es5_values [OF r])
  then show "enum_assign k x (enums (snd (initEnum_es5 m g t)) g) = None"
    by (rule efrozen_rejects)
  assume "get_prop (enums (snd (initEnum_es5 m g t)) g) k \<noteq> None"
  with fr show "enum_delete k (enums (snd (initEnum_es5 m g t)) g) = None"
    by (rule efrozen_rejects)
next
  assume "fst (initEnum_ts l f u) = Inr ()"
  then have r: "initEnum_ts l f u = (Inr (), snd (initEnum_ts l f u))" by (rule pair_fst_snd)
  from initEnum_ts_Inr [OF r] obtain E vs where
    E: "enum_assign ''name'' (Str l) (enums u f) = Some E"
      "enums (snd (initEnum_ts l f u)) = (enums u)(f := E)"
      "arrays (snd (initEnum_ts l f u)) = (arrays u)(next_arr u := \<lparr>elems = vs, afrozen = True\<rparr>)"
    by metis
  show "\<not> efrozen (enums (snd (initEnum_ts l f u)) f)"
    using E enum_assign_name [OF E(1)] by simp
  show "map_of (registry (snd (initEnum_ts l f u))) (Some (Str l)) = Some (next_arr u)"
    by (rule initEnum_ts_values [OF r])
  show "afrozen (arrays (snd (initEnum_ts l f u)) (next_arr u))"
    using E by simp
qed


theorem frozen_after_sealing_witness:
  "fst (initEnum ES5 ''Season'' 0 season_unsealed_es5) = Inr ()
   \<and> (0::nat) \<in> set (members (enums season_es5 0))
   \<and> isFrozen (objs season_es5 0)
   \<and> assign_description ''Autumn'' (objs season_es5 0) = None
   \<and> assign_ordinal 7 (objs season_es5 0) = None
   \<and> assign_propName ''AUTUMN'' (objs season_es5 0) = None
   \<and> fst (initEnum_es5 ''Season'' 0 season_unsealed_es5) = Inr ()
   \<and> efrozen (enums season_es5 0)
   \<and> enum_assign ''SPRING'' Other (enums season_es5 0) = None
   \<and> get_prop (enums season_es5 0) ''SPRING'' \<noteq> None
   \<and> enum_delete ''SPRING'' (enums season_es5 0) = None
   \<and> fst (initEnum_ts ''Season'' 0 season_unsealed_ts) = Inr ()
   \<and> \<not> efrozen (enums season_ts 0)
   \<and> afrozen (arrays season_ts (next_arr season_unsealed_ts))"
proof -
  note T = frozen_after_sealing [of ES5 "''Season''" 0 season_unsealed_es5 "''Autumn''" 7 "''AUTUMN''"
      "''Season''" 0 season_unsealed_es5 "''SPRING''" Other "''Season''" 0 season_unsealed_ts,
      folded season_es5_E, folded season_es5_def season_ts_def]
  have mem: "(0::nat) \<in> set (members (enums season_es5 0))" by (simp add: season_es5_members)
  have spring: "get_prop (enums season_es5 0) ''SPRING'' \<noteq> None"
    by (simp add: season_es5_fields get_prop_def season_props_def)
  note A = T [THEN conjunct1, THEN mp, OF season_es5_ok', THEN bspec, OF mem]
  note B = T [THEN conjunct2, THEN conjunct1, THEN mp, OF season_es5_ok]
  note C = T [THEN conjunct2, THEN conjunct2, THEN mp, OF season_ts_ok]
  show ?thesis
    by (intro conjI season_es5_ok' season_es5_ok season_ts_ok mem spring A [THEN conjunct1]
          A [THEN conjunct2, THEN conjunct1] A [THEN conjunct2, THEN conjunct2, THEN conjunct1]
          A [THEN conjunct2, THEN conjunct2, THEN conjunct2]
          B [THEN conjunct1] B [THEN conjunct2, THEN conjunct1]
          B [THEN conjunct2, THEN conjunct2, THEN mp, OF spring]
          C [THEN conjunct1] C [THEN conjunct2, THEN conjunct2])
qed

text \<open>
  C8: \<open>byPropName\<close> and \<open>byDescription\<close> search \<open>values\<close> from the front. They return the
  absent value exactly when no member has the property name (the description) asked
  for, and otherwise the first member that has it. Neither of them can fail: no error is
  among their results, and all they change in the state is the array that \<open>values\<close>
  allocates.
\<close>

theorem lookup_first_match:
  "(fst (byPropName p e s) = None \<longleftrightarrow>
      (\<forall>a \<in> set (values_of e s). propName (objs s a) \<noteq> Some p))
   \<and> (fst (byPropName p e s) = Some a \<longrightarrow>
      (\<exists>i < length (values_of e s). values_of e s ! i = a \<and> propName (objs s a) = Some p
          \<and> (\<forall>j < i. propName (objs s (values_of e s ! j)) \<noteq> Some p)))
   \<and> snd (byPropName p e s) = snd (get_values e s)
   \<and> (fst (byDescription d e s) = None \<longleftrightarrow>
      (\<forall>a \<in> set (values_of e s). description (objs s a) \<noteq> Some d))
   \<and> (fst (byDescription d e s) = Some b \<longrightarrow>
      (\<exists>i < length (values_of e s). values_of e s ! i = b \<and> description (objs s b) = Some d
          \<and> (\<forall>j < i. description (objs s (values_of e s ! j)) \<noteq> Some d)))
   \<and> snd (byDescription d e s) = snd (get_values e s)"
proof (intro conjI impI)
  show "fst (byPropName p e s) = None \<longleftrightarrow>
      (\<forall>a \<in> set (values_of e s). propName (objs s a) \<noteq> Some p)"
    by (auto simp: byPropName_find find_None_iff)
  show "fst (byDescription d e s) = None \<longleftrightarrow>
      (\<forall>a \<in> set (values_of e s). description (objs s a) \<noteq> Some d)"
    by (auto simp: byDescription_find find_None_iff)
  show "snd (byPropName p e s) = snd (get_values e s)" by (rule byPropName_find)
  show "snd (byDescription d e s) = snd (get_values e s)" by (rule byDescription_find)
next
  assume "fst (byPropName p e s) = Some a"
  then have "find (\<lambda>x. propName (objs s x) = Some p) (values_of e s) = Some a"
    by (simp add: byPropName_find)
  then show "\<exists>i < length (values_of e s). values_of e s ! i = a \<and> propName (objs s a) = Some p
          \<and> (\<forall>j < i. propName (objs s (values_of e s ! j)) \<noteq> Some p)"
    by (rule find_first)
next
  assume "fst (byDescription d e s) = Some b"
  then have "find (\<lambda>x. description (objs s x) = Some d) (values_of e s) = Some b"
    by (simp add: byDescription_find)
  then show "\<exists>i < length (values_of e s). values_of e s ! i = b \<and> description (objs s b) = Some d
          \<and> (\<forall>j < i. description (objs s (values_of e s ! j)) \<noteq> Some d)"
    by (rule find_first)
qed

theorem lookup_first_match_witness:
  "fst (byPropName ''SUMMER'' 0 season_ts) = Some 1
   \<and> values_of 0 season_ts ! 1 = 1
   \<and> propName (objs season_ts 1) = Some ''SUMMER''
   \<and> propName (objs season_ts (values_of 0 season_ts ! 0)) \<noteq> Some ''SUMMER''
   \<and> fst (byDescription ''Fall'' 0 season_ts) = Some 2
   \<and> description (objs season_ts 2) = Some ''Fall''
   \<and> fst (byPropName ''NONEXISTENT'' 0 season_ts) = None
   \<and> fst (byDescription ''nonexistent'' 0 season_ts) = None"
proof -
  note T = lookup_first_match [of "''SUMMER''" 0 season_ts 1 "''Fall''" 2]
  from T [THEN conjunct2, THEN conjunct1, THEN mp, OF season_lookups(1)]
  obtain i where i: "i < length (values_of 0 season_ts)" "values_of 0 season_ts ! i = 1"
    and p: "propName (objs season_ts 1) = Some ''SUMMER''"
    and first: "\<forall>j < i. propName (objs season_ts (values_of 0 season_ts ! j)) \<noteq> Some ''SUMMER''"
    by blast
  from i have "i = 1 \<or> i = 0 \<or> i = 2 \<or> i = 3" by (auto simp: season_values)
  with i have "i = 1" by (auto simp: season_values)
  with first have before: "propName (objs season_ts (values_of 0 season_ts ! 0)) \<noteq> Some ''SUMMER''"
    by simp
  from T [THEN conjunct2, THEN conjunct2, THEN conjunct2, THEN conjunct2, THEN conjunct1,
      THEN mp, OF season_lookups(2)]
  have d: "description (objs season_ts 2) = Some ''Fall''" by blast
  have at: "values_of 0 season_ts ! 1 = 1" by (simp add: season_values)
  have none: "fst (byPropName ''NONEXISTENT'' 0 season_ts) = None"
    "fst (byDescription ''nonexistent'' 0 season_ts) = None"
    by (simp_all add: byPropName_find byDescription_find season_values season_objs)
  show ?thesis
    by (intro conjI season_lookups at p before d none)
qed

text \<open>
  C9, as stated: \<open>toString()\<close> of an Enum sealed under the name \<open>n\<close> returns \<open>n\<close>. The TS
  variant defines no \<open>toString\<close> on Enum, so that the sealed \<open>Season\<close> there answers with
  the inherited text and not with \<open>Season\<close>.
\<close>

theorem toString_name_counterexample:
  "fst (initEnum_ts ''Season'' 0 season_unsealed_ts) = Inr ()
   \<and> toString_ts 0 season_ts \<noteq> Some (Str ''Season'')"
  by (simp add: season_ts_ok toString_ts_def)

text \<open>
  C9, amended. In the ES5 variant, \<open>toString()\<close> of an Enum that has been sealed under the
  name \<open>n\<close> returns \<open>n\<close>. In the TS variant an Enum has no \<open>toString\<close> of its own and
  answers \<open>[object Object]\<close>, sealed or not.
\<close>

theorem toString_name:
  "(fst (initEnum_es5 n e s) = Inr () \<longrightarrow>
      toString_es5 e (snd (initEnum_es5 n e s)) = Some (Str n))
   \<and> toString_ts g t = Some (Str ''[object Object]'')"
proof (intro conjI impI)
  assume "fst (initEnum_es5 n e s) = Inr ()"
  then have r: "initEnum_es5 n e s = (Inr (), snd (initEnum_es5 n e s))" by (rule pair_fst_snd)
  from initEnum_es5_Inr [OF r] obtain E where
    E: "enum_assign ''name'' (Str n) (enums s e) = Some E"
      "enums (snd (initEnum_es5 n e s)) = (enums s)(e := E\<lparr>efrozen := True\<rparr>)"
    by metis
  then show "toString_es5 e (snd (initEnum_es5 n e s)) = Some (Str n)"
    using enum_assign_name [OF E(1)] by (simp add: toString_es5_def get_prop_def)
next
  show "toString_ts g t = Some (Str ''[object Object]'')" by (simp add: toString_ts_def)
qed

theorem toString_name_witness:
  "fst (initEnum_es5 ''Season'' 0 season_unsealed_es5) = Inr ()
   \<and> toString_es5 0 season_es5 = Some (Str ''Season'')
   \<and> toString_ts 0 season_ts = Some (Str ''[object Object]'')"
proof -
  note T = toString_name [of "''Season''" 0 season_unsealed_es5 0 season_ts, folded season_es5_def]
  show ?thesis
    by (intro conjI season_es5_ok T [THEN conjunct1, THEN mp, OF season_es5_ok] T [THEN conjunct2])
qed

text \<open>
  C10: for an Enum whose name is not in the registry, in particular one on which
  \<open>initEnum\<close> has not run, the accessor \<open>values\<close> returns an empty array, and \<open>byPropName\<close>
  and \<open>byDescription\<close> return the absent value for every argument.
\<close>

theorem unregistered_values_empty:
  assumes "map_of (registry s) (get_prop (enums s e) ''name'') = None"
  shows "values_of e s = [] \<and> fst (byPropName p e s) = None \<and> fst (byDescription d e s) = None"
  using assms by (simp add: byPropName_find byDescription_find values_of_eq)

theorem unregistered_values_empty_witness:
  "map_of (registry season_unsealed_ts) (get_prop (enums season_unsealed_ts 0) ''name'') = None
   \<and> values_of 0 season_unsealed_ts = []
   \<and> fst (byPropName ''SPRING'' 0 season_unsealed_ts) = None
   \<and> fst (byDescription ''Spring'' 0 season_unsealed_ts) = None"
  using unnamed_season unregistered_values_empty [OF unnamed_season, of "''SPRING''" "''Spring''"]
  by blast

end
